theory Spec2Isabelle
  imports Complex_Main "HOL-Library.AList"
begin

section \<open>The QSettings store that class Settings extends\<close>

text \<open>
  \<^verbatim>\<open>class Settings(QtCore.QSettings)\<close> (src/ui/settings.py) inherits its storage from Qt.
  The part of \<^verbatim>\<open>QSettings\<close> the class calls is modelled here as an association list from
  full keys to variants plus the stack of open groups and arrays. The file is opened with
  a file name and \<^verbatim>\<open>IniFormat\<close>, so there are no fallback locations. Keys are kept as the
  class builds them (no slash normalisation).
\<close>

datatype qvariant =
    Invalid          \<comment> \<open>an invalid QVariant; Python sees \<^verbatim>\<open>None\<close>\<close>
  | Num int
  | Str string
  | Blob string      \<comment> \<open>a QByteArray, as \<^verbatim>\<open>saveGeometry()\<close> and \<^verbatim>\<open>saveState()\<close> return\<close>

text \<open>\<^verbatim>\<open>QString::number\<close>: decimal digits, most significant first.\<close>

definition digit_char :: "nat \<Rightarrow> char" where
  "digit_char d = char_of (48 + d)"

fun dec :: "nat \<Rightarrow> string" where
  "dec n = (if n < 10 then [digit_char n] else dec (n div 10) @ [digit_char (n mod 10)])"

declare dec.simps [simp del]

definition number :: "int \<Rightarrow> string" where
  "number n = (if n < 0 then CHR ''-'' # dec (nat (- n)) else dec (nat n))"

text \<open>\<^verbatim>\<open>QVariant::toInt\<close>: a number is itself, a text of decimal digits (with an optional
  minus sign) is parsed, anything else is 0.\<close>

definition digit_val :: "char \<Rightarrow> nat option" where
  "digit_val c = (let k = (of_char c :: nat) in if 48 \<le> k \<and> k \<le> 57 then Some (k - 48) else None)"

fun parse_digits :: "nat \<Rightarrow> string \<Rightarrow> nat option" where
  "parse_digits acc [] = Some acc"
| "parse_digits acc (c # cs) =
     (case digit_val c of None \<Rightarrow> None | Some d \<Rightarrow> parse_digits (10 * acc + d) cs)"

definition parse_int :: "string \<Rightarrow> int" where
  "parse_int s =
     (case s of
        [] \<Rightarrow> 0
      | c # cs \<Rightarrow>
          if c = CHR ''-'' then
            (case cs of [] \<Rightarrow> 0
             | _ \<Rightarrow> (case parse_digits 0 cs of None \<Rightarrow> 0 | Some n \<Rightarrow> - int n))
          else (case parse_digits 0 s of None \<Rightarrow> 0 | Some n \<Rightarrow> int n))"

fun toInt :: "qvariant \<Rightarrow> int" where
  "toInt (Num n) = n"
| "toInt (Str s) = parse_int s"
| "toInt Invalid = 0"
| "toInt (Blob b) = 0"

text \<open>\<^verbatim>\<open>QSettingsGroup\<close>: the group name, \<open>num\<close> (\<open>-1\<close> for a plain group, otherwise the
  current array index plus one) and \<open>maxNum\<close> (\<open>-1\<close> unless the array size is being guessed
  from the indices written).\<close>

record qgroup =
  str :: string
  num :: int
  maxNum :: int

record qsettings =
  store :: "(string \<times> qvariant) list"
  groupStack :: "qgroup list"      \<comment> \<open>innermost group first\<close>

definition group_toString :: "qgroup \<Rightarrow> string" where
  "group_toString g = (if 0 < num g then str g @ ''/'' @ number (num g) else str g)"

fun groupPrefix_of :: "qgroup list \<Rightarrow> string" where
  "groupPrefix_of [] = []"
| "groupPrefix_of (g # gs) =
     groupPrefix_of gs @ (if str g = [] then [] else group_toString g @ ''/'')"

definition groupPrefix :: "'a qsettings_scheme \<Rightarrow> string" where
  "groupPrefix s = groupPrefix_of (groupStack s)"

definition actualKey :: "'a qsettings_scheme \<Rightarrow> string \<Rightarrow> string" where
  "actualKey s k = groupPrefix s @ k"

text \<open>\<^verbatim>\<open>group()\<close>: the prefix without its trailing slash.\<close>

definition group :: "'a qsettings_scheme \<Rightarrow> string" where
  "group s = butlast (groupPrefix s)"

definition qvalue :: "'a qsettings_scheme \<Rightarrow> string \<Rightarrow> qvariant" where
  "qvalue s k = (case map_of (store s) (actualKey s k) of None \<Rightarrow> Invalid | Some v \<Rightarrow> v)"

definition setValue :: "string \<Rightarrow> qvariant \<Rightarrow> 'a qsettings_scheme \<Rightarrow> 'a qsettings_scheme" where
  "setValue k v s = s\<lparr>store := AList.update (actualKey s k) v (store s)\<rparr>"

definition starts_with :: "string \<Rightarrow> string \<Rightarrow> bool" where
  "starts_with p k = (take (length p) k = p)"

text \<open>\<^verbatim>\<open>remove(key)\<close> deletes the key and every key below it; the empty key stands for the
  current group, and for the whole store at top level.\<close>

definition remove_key :: "string \<Rightarrow> (string \<times> qvariant) list \<Rightarrow> (string \<times> qvariant) list" where
  "remove_key k kvs = filter (\<lambda>(k', v). \<not> (k' = k \<or> starts_with (k @ ''/'') k')) kvs"

definition remove :: "string \<Rightarrow> 'a qsettings_scheme \<Rightarrow> 'a qsettings_scheme" where
  "remove k s =
     (let theKey = (if k = [] then group s else groupPrefix s @ k)
      in if theKey = [] then s\<lparr>store := []\<rparr>
         else s\<lparr>store := remove_key theKey (store s)\<rparr>)"

text \<open>\<^verbatim>\<open>allKeys()\<close> and \<^verbatim>\<open>childGroups()\<close> are relative to the current group.\<close>

definition allKeys :: "'a qsettings_scheme \<Rightarrow> string list" where
  "allKeys s =
     map (drop (length (groupPrefix s)))
       (filter (starts_with (groupPrefix s)) (map fst (store s)))"

definition childGroups :: "'a qsettings_scheme \<Rightarrow> string list" where
  "childGroups s =
     remdups (map (takeWhile (\<lambda>c. c \<noteq> CHR ''/''))
       (filter (\<lambda>k. CHR ''/'' \<in> set k) (allKeys s)))"

definition beginGroupOrArray :: "qgroup \<Rightarrow> 'a qsettings_scheme \<Rightarrow> 'a qsettings_scheme" where
  "beginGroupOrArray g s = s\<lparr>groupStack := g # groupStack s\<rparr>"

definition beginGroup :: "string \<Rightarrow> 'a qsettings_scheme \<Rightarrow> 'a qsettings_scheme" where
  "beginGroup p s = beginGroupOrArray \<lparr>str = p, num = - 1, maxNum = - 1\<rparr> s"

definition endGroup :: "'a qsettings_scheme \<Rightarrow> 'a qsettings_scheme" where
  "endGroup s = s\<lparr>groupStack := tl (groupStack s)\<rparr>"

definition beginReadArray :: "string \<Rightarrow> 'a qsettings_scheme \<Rightarrow> int \<times> 'a qsettings_scheme" where
  "beginReadArray p s =
     (let s' = beginGroupOrArray \<lparr>str = p, num = 0, maxNum = - 1\<rparr> s
      in (toInt (qvalue s' ''size''), s'))"

definition beginWriteArray :: "string \<Rightarrow> int \<Rightarrow> 'a qsettings_scheme \<Rightarrow> 'a qsettings_scheme" where
  "beginWriteArray p sz s =
     (let s' = beginGroupOrArray \<lparr>str = p, num = 0, maxNum = (if sz < 0 then 0 else - 1)\<rparr> s
      in if sz < 0 then remove ''size'' s' else setValue ''size'' (Num sz) s')"

definition isArray :: "qgroup \<Rightarrow> bool" where
  "isArray g = (num g \<noteq> - 1)"

definition group_setArrayIndex :: "int \<Rightarrow> qgroup \<Rightarrow> qgroup" where
  "group_setArrayIndex i g =
     (let n = i + 1
      in g\<lparr>num := n, maxNum := (if maxNum g \<noteq> - 1 \<and> maxNum g < n then n else maxNum g)\<rparr>)"

definition setArrayIndex :: "int \<Rightarrow> 'a qsettings_scheme \<Rightarrow> 'a qsettings_scheme" where
  "setArrayIndex i s =
     (case groupStack s of
        [] \<Rightarrow> s
      | g # gs \<Rightarrow>
          if isArray g then s\<lparr>groupStack := group_setArrayIndex (max i 0) g # gs\<rparr> else s)"

definition endArray :: "'a qsettings_scheme \<Rightarrow> 'a qsettings_scheme" where
  "endArray s =
     (case groupStack s of
        [] \<Rightarrow> s
      | g # gs \<Rightarrow>
          let s' = s\<lparr>groupStack := gs\<rparr>
          in if maxNum g \<noteq> - 1 then setValue (str g @ ''/size'') (Num (maxNum g)) s' else s')"

section \<open>The main window the settings object is attached to\<close>

text \<open>\<^verbatim>\<open>self._parent\<close> is the application's main window (or \<^verbatim>\<open>None\<close>). Only what the class
  reads or writes is kept: the window's geometry and state blobs and its dock widgets, in
  the order \<^verbatim>\<open>findChildren(QtGui.QDockWidget)\<close> returns them.\<close>

record dock_widget =
  objectName :: string
  dock_geometry :: string

record main_window =
  geometry :: string
  windowState :: string
  docks :: "dock_widget list"

text \<open>\<^verbatim>\<open>class Settings(QtCore.QSettings)\<close> with the fields \<^verbatim>\<open>__init__\<close> sets.\<close>

record settings = qsettings +
  max_files :: int
  parent :: "main_window option"

datatype py_error = NameError | UnboundLocalError | AttributeError

section \<open>Construction\<close>

text \<open>
  The module imports \<^verbatim>\<open>os\<close>, \<^verbatim>\<open>QtCore\<close>, \<^verbatim>\<open>QtGui\<close> and \<^verbatim>\<open>log\<close> and defines \<^verbatim>\<open>Settings\<close>;
  \<^verbatim>\<open>initializePreferences\<close> reads the global name \<^verbatim>\<open>options\<close>. A global name is either
  unbound or bound to an object; for \<^verbatim>\<open>options\<close> that object would carry the table
  \<^verbatim>\<open>SCENEGRAPH_PREFERENCES\<close>, from option names to dictionaries. Nothing in the module binds
  \<^verbatim>\<open>options\<close>.
\<close>

type_synonym preferences = "(string \<times> (string \<times> qvariant) list) list"

definition module_options :: "preferences option" where
  "module_options = None"

text \<open>\<^verbatim>\<open>while self.group(): self.endGroup()\<close>\<close>

function end_groups :: "'a qsettings_scheme \<Rightarrow> 'a qsettings_scheme" where
  "end_groups s = (if group s \<noteq> [] then end_groups (endGroup s) else s)"
  by pat_completeness auto
termination
proof (relation "measure (\<lambda>s. length (groupStack s))")
  show "wf (measure (\<lambda>s::'a qsettings_scheme. length (groupStack s)))" by simp
next
  fix s :: "'a qsettings_scheme"
  assume "group s \<noteq> []"
  then have "groupStack s \<noteq> []"
    by (auto simp: group_def groupPrefix_def)
  then show "(endGroup s, s) \<in> measure (\<lambda>s. length (groupStack s))"
    by (cases "groupStack s") (simp_all add: endGroup_def)
qed

declare end_groups.simps [simp del]

fun set_default :: "string \<times> (string \<times> qvariant) list \<Rightarrow> 'a qsettings_scheme \<Rightarrow> 'a qsettings_scheme" where
  "set_default (option, d) s =
     (case map_of d ''default'' of
        Some v \<Rightarrow> setValue (''default/'' @ option) v s
      | None \<Rightarrow> s)"

definition initializePreferences :: "'a qsettings_scheme \<Rightarrow> py_error + 'a qsettings_scheme" where
  "initializePreferences s =
     (if ''Preferences'' \<notin> set (childGroups s) then
        (let s1 = beginGroup ''Preferences'' s
         in case module_options of
              None \<Rightarrow> Inl NameError
            | Some prefs \<Rightarrow> Inr (end_groups (fold set_default prefs s1)))
      else Inr s)"

definition initialize :: "settings \<Rightarrow> py_error + settings" where
  "initialize s =
     (let s1 = (if ''MainWindow'' \<notin> set (childGroups s) then
                  (case parent s of
                     None \<Rightarrow> s
                   | Some w \<Rightarrow>
                       setValue ''MainWindow/windowState/default'' (Blob (windowState w))
                         (setValue ''MainWindow/geometry/default'' (Blob (geometry w)) s))
                else s);
          s2 = (if ''RecentFiles'' \<notin> set (childGroups s1)
                then endArray (beginWriteArray ''RecentFiles'' 0 s1) else s1);
          s3 = end_groups s2
      in initializePreferences s3)"

text \<open>\<^verbatim>\<open>Settings(filename, frmt, parent, max_files)\<close>: \<open>file\<close> is what the settings file
  holds when it is opened. The field \<^verbatim>\<open>_groups\<close> is set and never read, and is left out.\<close>

definition Settings_init :: "(string \<times> qvariant) list \<Rightarrow> main_window option \<Rightarrow> int
    \<Rightarrow> py_error + settings" where
  "Settings_init file par n =
     initialize \<lparr>store = file, groupStack = [], max_files = n, parent = par\<rparr>"

section \<open>Window layouts\<close>

definition window_keys :: "settings \<Rightarrow> string list" where
  "window_keys s =
     (case parent s of
        None \<Rightarrow> []
      | Some w \<Rightarrow> ''MainWindow'' # map objectName (docks w))"

text \<open>\<^verbatim>\<open>saveLayout\<close> calls \<^verbatim>\<open>self._parent.saveGeometry()\<close> first, which needs a parent.\<close>

definition saveLayout :: "string \<Rightarrow> settings \<Rightarrow> py_error + settings" where
  "saveLayout layout s =
     (case parent s of
        None \<Rightarrow> Inl AttributeError
      | Some w \<Rightarrow>
          let s1 = setValue (''MainWindow/geometry/'' @ layout) (Blob (geometry w)) s;
              s2 = setValue (''MainWindow/windowState/'' @ layout) (Blob (windowState w)) s1
          in Inr (fold (\<lambda>dock. setValue (objectName dock @ ''/geometry/'' @ layout)
                                  (Blob (dock_geometry dock)))
                    (docks w) s2))"

text \<open>\<^verbatim>\<open>restoreGeometry\<close> and \<^verbatim>\<open>restoreState\<close> take a byte array; any other variant leaves
  the widget as it is.\<close>

fun restoreGeometry :: "qvariant \<Rightarrow> main_window \<Rightarrow> main_window" where
  "restoreGeometry (Blob b) w = w\<lparr>geometry := b\<rparr>"
| "restoreGeometry v w = w"

fun restoreState :: "qvariant \<Rightarrow> main_window \<Rightarrow> main_window" where
  "restoreState (Blob b) w = w\<lparr>windowState := b\<rparr>"
| "restoreState v w = w"

fun dock_restoreGeometry :: "qvariant \<Rightarrow> dock_widget \<Rightarrow> dock_widget" where
  "dock_restoreGeometry (Blob b) d = d\<lparr>dock_geometry := b\<rparr>"
| "dock_restoreGeometry v d = d"

text \<open>\<^verbatim>\<open>findChildren(QtGui.QDockWidget, widget_name)\<close>: the docks of that name.\<close>

definition findChildren :: "string \<Rightarrow> main_window \<Rightarrow> dock_widget list" where
  "findChildren widget_name w = filter (\<lambda>d. objectName d = widget_name) (docks w)"

text \<open>\<^verbatim>\<open>dock[0].restoreGeometry(value)\<close> changes the first dock of that name.\<close>

fun restore_first :: "string \<Rightarrow> qvariant \<Rightarrow> dock_widget list \<Rightarrow> dock_widget list" where
  "restore_first widget_name v [] = []"
| "restore_first widget_name v (d # ds) =
     (if objectName d = widget_name then dock_restoreGeometry v d # ds
      else d # restore_first widget_name v ds)"

text \<open>
  The loop of \<^verbatim>\<open>restoreLayout\<close> over \<^verbatim>\<open>window_keys\<close>. The local variable \<^verbatim>\<open>value\<close> is
  assigned only in the \<^verbatim>\<open>MainWindow\<close> branch, under \<^verbatim>\<open>if key_name in self.allKeys()\<close>; it is
  \<open>None\<close> here while unassigned, and reading it then raises \<^verbatim>\<open>UnboundLocalError\<close>.
\<close>

fun restore_widgets :: "settings \<Rightarrow> string \<Rightarrow> string list \<Rightarrow> qvariant option \<Rightarrow> main_window
    \<Rightarrow> py_error + main_window" where
  "restore_widgets s layout [] val w = Inr w"
| "restore_widgets s layout (widget_name # rest) val w =
     (let key_name = widget_name @ ''/geometry/'' @ layout
      in if widget_name \<noteq> ''MainWindow'' then
           (let dock = findChildren widget_name w
            in if dock \<noteq> [] then
                 (case val of
                    None \<Rightarrow> Inl UnboundLocalError
                  | Some v \<Rightarrow>
                      restore_widgets s layout rest val
                        (w\<lparr>docks := restore_first widget_name v (docks w)\<rparr>))
               else restore_widgets s layout rest val w)
         else
           (let (val1, w1) = (if key_name \<in> set (allKeys s)
                              then (Some (qvalue s key_name), restoreGeometry (qvalue s key_name) w)
                              else (val, w));
                window_state = widget_name @ ''/windowState/'' @ layout;
                w2 = (if window_state \<in> set (allKeys s)
                      then restoreState (qvalue s window_state) w1 else w1)
            in restore_widgets s layout rest val1 w2))"

definition restoreLayout :: "string \<Rightarrow> settings \<Rightarrow> py_error + settings" where
  "restoreLayout layout s =
     (case parent s of
        None \<Rightarrow> Inr s
      | Some w \<Rightarrow>
          (case restore_widgets s layout (window_keys s) None w of
             Inl e \<Rightarrow> Inl e
           | Inr w' \<Rightarrow> Inr (s\<lparr>parent := Some w'\<rparr>)))"

section \<open>Recent files\<close>

text \<open>\<^verbatim>\<open>getRecentFiles\<close>: the loop over \<^verbatim>\<open>range(cnt)\<close> reads \<^verbatim>\<open>file\<close> at each index.\<close>

fun read_files :: "nat list \<Rightarrow> qvariant list \<Rightarrow> 'a qsettings_scheme
    \<Rightarrow> qvariant list \<times> 'a qsettings_scheme" where
  "read_files [] recent_files s = (recent_files, s)"
| "read_files (i # is) recent_files s =
     (let s1 = setArrayIndex (int i) s;
          fn = qvalue s1 ''file''
      in read_files is (recent_files @ [fn]) s1)"

definition getRecentFiles :: "'a qsettings_scheme \<Rightarrow> qvariant list \<times> 'a qsettings_scheme" where
  "getRecentFiles s =
     (let (cnt, s1) = beginReadArray ''RecentFiles'' s;
          (recent_files, s2) = read_files [0..<nat cnt] [] s1
      in (recent_files, endArray s2))"

text \<open>\<^verbatim>\<open>addRecentFile\<close>: the loop over \<^verbatim>\<open>range(len(recent_files))\<close> writes every entry.\<close>

fun write_files :: "nat list \<Rightarrow> qvariant list \<Rightarrow> 'a qsettings_scheme \<Rightarrow> 'a qsettings_scheme" where
  "write_files [] recent_files s = s"
| "write_files (i # is) recent_files s =
     write_files is recent_files (setValue ''file'' (recent_files ! i) (setArrayIndex (int i) s))"

definition addRecentFile :: "qvariant \<Rightarrow> 'a qsettings_scheme \<Rightarrow> 'a qsettings_scheme" where
  "addRecentFile filename s =
     (let (recent_files, s1) = getRecentFiles s;
          recent_files = (if filename \<in> set recent_files
                          then filter (\<lambda>x. x \<noteq> filename) recent_files else recent_files);
          recent_files = recent_files @ [filename];
          s2 = beginWriteArray ''RecentFiles'' (- 1) s1;
          s3 = write_files [0..<length recent_files] recent_files s2
      in endArray s3)"

text \<open>What the array \<^verbatim>\<open>RecentFiles\<close> of the current group holds: entry \<open>i\<close> lives under
  \<^verbatim>\<open>RecentFiles/<i+1>/file\<close>, the length under \<^verbatim>\<open>RecentFiles/size\<close>.\<close>

definition lookup_file :: "(string \<times> qvariant) list \<Rightarrow> string \<Rightarrow> nat \<Rightarrow> qvariant" where
  "lookup_file kvs base i =
     (case map_of kvs (base @ dec (Suc i) @ ''/file'') of None \<Rightarrow> Invalid | Some v \<Rightarrow> v)"

definition stored_files :: "'a qsettings_scheme \<Rightarrow> qvariant list" where
  "stored_files s =
     (let base = groupPrefix s @ ''RecentFiles/''
      in map (lookup_file (store s) base)
           [0..<nat (toInt (case map_of (store s) (base @ ''size'') of
                              None \<Rightarrow> Invalid | Some v \<Rightarrow> v))])"

definition clearRecentFiles :: "'a qsettings_scheme \<Rightarrow> 'a qsettings_scheme" where
  "clearRecentFiles s = remove ''RecentFiles'' s"

text \<open>Python's slice \<^verbatim>\<open>tmp[:n]\<close>: a negative bound counts from the end.\<close>

definition slice_to :: "int \<Rightarrow> 'a list \<Rightarrow> 'a list" where
  "slice_to n xs = (if n < 0 then take (nat (int (length xs) + n)) xs else take (nat n) xs)"

text \<open>The property \<^verbatim>\<open>recent_files\<close>.\<close>

definition recent_files :: "settings \<Rightarrow> qvariant list \<times> settings" where
  "recent_files s =
     (let (files, s1) = getRecentFiles s;
          tmp = foldl (\<lambda>tmp f. tmp @ [f]) [] (rev files)
      in (slice_to (max_files s1) tmp, s1))"

section \<open>The graph model, the command stack and the scene handler\<close>

text \<open>
  \<^verbatim>\<open>src/ui/__init__.py\<close> only imports the modules \<^verbatim>\<open>graphics\<close>, \<^verbatim>\<open>node_widgets\<close>,
  \<^verbatim>\<open>models\<close>, \<^verbatim>\<open>handlers\<close> and \<^verbatim>\<open>commands\<close>; their code is not part of the sources at
  hand. Every definition of this section is therefore written from the specification
  (sections 3, 4 and 7), and says so. The specification asks for the two endpoints of an
  Edge to lie on distinct Nodes but names no failure for it, so \<open>addEdge\<close> below makes the
  checks that have a named failure; dragging a Node has no Graph Model call in the
  specification and is no intent here.
\<close>

text \<open>Modelled from the spec: the identifiers of Nodes and Edges (\<^verbatim>\<open>node_widgets\<close>), unique
  keys of the Graph.\<close>

type_synonym ident = nat

text \<open>Modelled from the spec: the direction of a Connection, input or output.\<close>

datatype direction = Input | Output

text \<open>Modelled from the spec: the Connection (port) of \<^verbatim>\<open>node_widgets\<close>, with a name and a
  direction; it belongs to the Node whose list holds it.\<close>

record connection =
  conn_name :: string
  conn_direction :: direction

text \<open>Modelled from the spec: the attribute values, a tagged variant
  (float2/float3/int2/int3/bool/color/string).\<close>

datatype attr_value =
    AFloat2 real real
  | AFloat3 real real real
  | AInt2 int int
  | AInt3 int int int
  | ABool bool
  | AColor nat nat nat
  | AString string

text \<open>Modelled from the spec: the Node of \<^verbatim>\<open>node_widgets\<close>: display name, 2D position,
  attribute key/value pairs and the ordered list of owned Connections. Its identifier is
  the key under which the Graph holds it.\<close>

record node =
  node_name :: string
  node_position :: "real \<times> real"
  attributes :: "string \<rightharpoonup> attr_value"
  connections :: "connection list"

text \<open>Modelled from the spec: the reference an Edge holds to a Connection, as the owning
  Node's identifier and the Connection's name.\<close>

type_synonym conn_ref = "ident \<times> string"

text \<open>Modelled from the spec: the Edge of \<^verbatim>\<open>node_widgets\<close>, a source and a destination
  Connection.\<close>

record edge =
  edge_source :: conn_ref
  edge_destination :: conn_ref

text \<open>Modelled from the spec: the Graph, all Nodes and Edges keyed by identifier, in
  insertion order.\<close>

record graph =
  nodes :: "(ident \<times> node) list"
  edges :: "(ident \<times> edge) list"

text \<open>Modelled from the spec: the failure taxonomy of section 7 (\<^verbatim>\<open>CommandStackEmpty\<close> is
  a no-op, not a failure).\<close>

datatype failure =
    NotFound
  | DuplicateIdentifier
  | DanglingConnection
  | IncompatibleDirection
  | InputAlreadyOccupied
  | ReentrantMutation

text \<open>Modelled from the spec: the structured change event of the Graph Model (kind,
  affected identifiers, before/after payload). A removal carries the position the entry
  had, an attribute change the prior value, so that the change can be inverted exactly.\<close>

datatype change =
    NodeAdded ident node
  | NodeRemoved nat ident node
  | EdgeAdded ident edge
  | EdgeRemoved nat ident edge
  | AttributeChanged ident string "attr_value option" attr_value

text \<open>Modelled from the spec: the Graph Model's invariant that Nodes and Edges are keyed by
  identifier.\<close>

definition wf_graph :: "graph \<Rightarrow> bool" where
  "wf_graph g = (distinct (map fst (nodes g)) \<and> distinct (map fst (edges g)))"

text \<open>Modelled from the spec: the position of an entry in the Graph's insertion order, and
  putting an entry back at a position; the state a Command of \<^verbatim>\<open>commands\<close> needs to invert a
  removal exactly.\<close>

definition key_index :: "ident \<Rightarrow> (ident \<times> 'a) list \<Rightarrow> nat" where
  "key_index k kvs = length (takeWhile (\<lambda>(k', v). k' \<noteq> k) kvs)"

definition insert_at :: "nat \<Rightarrow> 'a \<Rightarrow> 'a list \<Rightarrow> 'a list" where
  "insert_at i x xs = take i xs @ x # drop i xs"

text \<open>Modelled from the spec: \<^verbatim>\<open>nodeConnections\<close> lookup, resolving a Connection reference
  to a live Connection on a live Node.\<close>

definition lookup_connection :: "graph \<Rightarrow> conn_ref \<Rightarrow> connection option" where
  "lookup_connection g r =
     (case map_of (nodes g) (fst r) of
        None \<Rightarrow> None
      | Some n \<Rightarrow> find (\<lambda>c. conn_name c = snd r) (connections n))"

text \<open>Modelled from the spec: an Edge touches a Node when one of its endpoints is a
  Connection of that Node (the Edges a Node's deletion cascades to).\<close>

definition touches :: "ident \<Rightarrow> edge \<Rightarrow> bool" where
  "touches nid e = (fst (edge_source e) = nid \<or> fst (edge_destination e) = nid)"

text \<open>Modelled from the spec: an input Connection accepts at most one incoming Edge.\<close>

definition occupied :: "graph \<Rightarrow> conn_ref \<Rightarrow> bool" where
  "occupied g r = list_ex (\<lambda>(eid, e). edge_source e = r \<or> edge_destination e = r) (edges g)"

text \<open>Modelled from the spec: \<^verbatim>\<open>addNode\<close> of the Graph Model.\<close>

definition addNode :: "graph \<Rightarrow> ident \<Rightarrow> node \<Rightarrow> failure + graph \<times> change list" where
  "addNode g nid n =
     (case map_of (nodes g) nid of
        Some m \<Rightarrow> Inl DuplicateIdentifier
      | None \<Rightarrow> Inr (g\<lparr>nodes := nodes g @ [(nid, n)]\<rparr>, [NodeAdded nid n]))"

text \<open>Modelled from the spec: the edge-removal events \<^verbatim>\<open>removeNode\<close> emits for a cascade, in
  list order; each carries the position its Edge has once the Edges before it are gone.\<close>

fun edge_removals :: "ident \<Rightarrow> nat \<Rightarrow> (ident \<times> edge) list \<Rightarrow> change list" where
  "edge_removals nid j [] = []"
| "edge_removals nid j ((eid, e) # es) =
     (if touches nid e then EdgeRemoved j eid e # edge_removals nid j es
      else edge_removals nid (Suc j) es)"

text \<open>Modelled from the spec: \<^verbatim>\<open>removeNode\<close> of the Graph Model, which deletes the Node and
  every Edge touching its Connections and emits the edge-removal events together with the
  node-removal event, as one transaction.\<close>

definition removeNode :: "graph \<Rightarrow> ident \<Rightarrow> failure + graph \<times> change list" where
  "removeNode g nid =
     (case map_of (nodes g) nid of
        None \<Rightarrow> Inl NotFound
      | Some n \<Rightarrow>
          Inr (g\<lparr>nodes := AList.delete nid (nodes g),
                 edges := filter (\<lambda>(eid, e). \<not> touches nid e) (edges g)\<rparr>,
               edge_removals nid 0 (edges g) @ [NodeRemoved (key_index nid (nodes g)) nid n]))"

text \<open>Modelled from the spec: \<^verbatim>\<open>addEdge\<close> of the Graph Model with the failures the spec
  names: a used identifier, an endpoint that does not resolve, two outputs or two inputs,
  an input that already has an Edge.\<close>

definition addEdge :: "graph \<Rightarrow> ident \<Rightarrow> edge \<Rightarrow> failure + graph \<times> change list" where
  "addEdge g eid e =
     (case map_of (edges g) eid of
        Some e' \<Rightarrow> Inl DuplicateIdentifier
      | None \<Rightarrow>
          (case (lookup_connection g (edge_source e), lookup_connection g (edge_destination e)) of
             (Some cs, Some cd) \<Rightarrow>
               if conn_direction cs = conn_direction cd then Inl IncompatibleDirection
               else if occupied g (if conn_direction cs = Input then edge_source e
                                   else edge_destination e)
               then Inl InputAlreadyOccupied
               else Inr (g\<lparr>edges := edges g @ [(eid, e)]\<rparr>, [EdgeAdded eid e])
           | _ \<Rightarrow> Inl DanglingConnection))"

text \<open>Modelled from the spec: \<^verbatim>\<open>removeEdge\<close> of the Graph Model.\<close>

definition removeEdge :: "graph \<Rightarrow> ident \<Rightarrow> failure + graph \<times> change list" where
  "removeEdge g eid =
     (case map_of (edges g) eid of
        None \<Rightarrow> Inl NotFound
      | Some e \<Rightarrow>
          Inr (g\<lparr>edges := AList.delete eid (edges g)\<rparr>,
               [EdgeRemoved (key_index eid (edges g)) eid e]))"

text \<open>Modelled from the spec: \<^verbatim>\<open>setAttribute\<close> of the Graph Model.\<close>

definition setAttribute :: "graph \<Rightarrow> ident \<Rightarrow> string \<Rightarrow> attr_value \<Rightarrow> failure + graph \<times> change list" where
  "setAttribute g nid key v =
     (case map_of (nodes g) nid of
        None \<Rightarrow> Inl NotFound
      | Some n \<Rightarrow>
          Inr (g\<lparr>nodes := AList.update nid (n\<lparr>attributes := (attributes n)(key \<mapsto> v)\<rparr>) (nodes g)\<rparr>,
               [AttributeChanged nid key (attributes n key) v]))"

text \<open>Modelled from the spec: replaying a change against the Graph Model, forwards (redo)
  and inverted (undo).\<close>

fun apply_change :: "change \<Rightarrow> graph \<Rightarrow> graph" where
  "apply_change (NodeAdded nid n) g = g\<lparr>nodes := nodes g @ [(nid, n)]\<rparr>"
| "apply_change (NodeRemoved i nid n) g = g\<lparr>nodes := AList.delete nid (nodes g)\<rparr>"
| "apply_change (EdgeAdded eid e) g = g\<lparr>edges := edges g @ [(eid, e)]\<rparr>"
| "apply_change (EdgeRemoved i eid e) g = g\<lparr>edges := AList.delete eid (edges g)\<rparr>"
| "apply_change (AttributeChanged nid key prior v) g =
     (case map_of (nodes g) nid of
        None \<Rightarrow> g
      | Some n \<Rightarrow>
          g\<lparr>nodes := AList.update nid (n\<lparr>attributes := (attributes n)(key \<mapsto> v)\<rparr>) (nodes g)\<rparr>)"

fun invert_change :: "change \<Rightarrow> graph \<Rightarrow> graph" where
  "invert_change (NodeAdded nid n) g = g\<lparr>nodes := AList.delete nid (nodes g)\<rparr>"
| "invert_change (NodeRemoved i nid n) g = g\<lparr>nodes := insert_at i (nid, n) (nodes g)\<rparr>"
| "invert_change (EdgeAdded eid e) g = g\<lparr>edges := AList.delete eid (edges g)\<rparr>"
| "invert_change (EdgeRemoved i eid e) g = g\<lparr>edges := insert_at i (eid, e) (edges g)\<rparr>"
| "invert_change (AttributeChanged nid key prior v) g =
     (case map_of (nodes g) nid of
        None \<Rightarrow> g
      | Some n \<Rightarrow>
          g\<lparr>nodes := AList.update nid (n\<lparr>attributes := (attributes n)(key := prior)\<rparr>) (nodes g)\<rparr>)"

text \<open>Modelled from the spec: the Commands of \<^verbatim>\<open>commands\<close>. A \<^verbatim>\<open>SceneNodesCommand\<close>
  records one mutation, a \<^verbatim>\<open>SceneChangedCommand\<close> a batch of sub-mutations that is applied
  and inverted as one unit.\<close>

datatype command =
    SceneNodesCommand change
  | SceneChangedCommand "change list"

fun command_changes :: "command \<Rightarrow> change list" where
  "command_changes (SceneNodesCommand c) = [c]"
| "command_changes (SceneChangedCommand cs) = cs"

definition make_command :: "change list \<Rightarrow> command" where
  "make_command cs = (case cs of [c] \<Rightarrow> SceneNodesCommand c | _ \<Rightarrow> SceneChangedCommand cs)"

text \<open>Modelled from the spec: a Command of \<^verbatim>\<open>commands\<close> re-applied (its sub-mutations in
  order) and inverted (its sub-mutations undone last to first).\<close>

definition redo_command :: "command \<Rightarrow> graph \<Rightarrow> graph" where
  "redo_command c g = fold apply_change (command_changes c) g"

definition undo_command :: "command \<Rightarrow> graph \<Rightarrow> graph" where
  "undo_command c g = foldr invert_change (command_changes c) g"

text \<open>Modelled from the spec: the Command Stack, a linear stack with a cursor: the applied
  Commands (most recent first) and the Commands available for redo (next first).\<close>

record command_stack =
  applied :: "command list"
  redoable :: "command list"

text \<open>Modelled from the spec: \<^verbatim>\<open>push(command)\<close> of the Command Stack records the Command and
  truncates the redo tail; the caller has applied the forward effect already.\<close>

definition push :: "command \<Rightarrow> command_stack \<Rightarrow> command_stack" where
  "push c st = \<lparr>applied = c # applied st, redoable = []\<rparr>"

text \<open>Modelled from the spec: the Derived View Models of \<^verbatim>\<open>models\<close>, as their ordered
  rows: node identifiers (\<^verbatim>\<open>NodesListModel\<close>), edge identifiers (\<^verbatim>\<open>EdgesListModel\<close>) and
  node identifiers with the cached display name (\<^verbatim>\<open>GraphTableModel\<close>). A new row is
  appended (sort policy \<^verbatim>\<open>none\<close>).\<close>

record view_models =
  nodes_list :: "ident list"
  edges_list :: "ident list"
  table_rows :: "(ident \<times> string) list"

text \<open>Modelled from the spec: the row updates of the view models of \<^verbatim>\<open>models\<close> on add and
  remove events.\<close>

definition row_added_node :: "ident \<Rightarrow> node \<Rightarrow> view_models \<Rightarrow> view_models" where
  "row_added_node nid n v =
     v\<lparr>nodes_list := nodes_list v @ [nid], table_rows := table_rows v @ [(nid, node_name n)]\<rparr>"

definition row_removed_node :: "ident \<Rightarrow> view_models \<Rightarrow> view_models" where
  "row_removed_node nid v =
     v\<lparr>nodes_list := removeAll nid (nodes_list v), table_rows := AList.delete nid (table_rows v)\<rparr>"

definition row_added_edge :: "ident \<Rightarrow> view_models \<Rightarrow> view_models" where
  "row_added_edge eid v = v\<lparr>edges_list := edges_list v @ [eid]\<rparr>"

definition row_removed_edge :: "ident \<Rightarrow> view_models \<Rightarrow> view_models" where
  "row_removed_edge eid v = v\<lparr>edges_list := removeAll eid (edges_list v)\<rparr>"

text \<open>Modelled from the spec: the reaction of the view models of \<^verbatim>\<open>models\<close> to a change
  event, and to the event of its inverse.\<close>

fun view_apply :: "change \<Rightarrow> view_models \<Rightarrow> view_models" where
  "view_apply (NodeAdded nid n) v = row_added_node nid n v"
| "view_apply (NodeRemoved i nid n) v = row_removed_node nid v"
| "view_apply (EdgeAdded eid e) v = row_added_edge eid v"
| "view_apply (EdgeRemoved i eid e) v = row_removed_edge eid v"
| "view_apply (AttributeChanged nid key prior a) v = v"

fun view_revert :: "change \<Rightarrow> view_models \<Rightarrow> view_models" where
  "view_revert (NodeAdded nid n) v = row_removed_node nid v"
| "view_revert (NodeRemoved i nid n) v = row_added_node nid n v"
| "view_revert (EdgeAdded eid e) v = row_removed_edge eid v"
| "view_revert (EdgeRemoved i eid e) v = row_added_edge eid v"
| "view_revert (AttributeChanged nid key prior a) v = v"

text \<open>Modelled from the spec: the state the Scene Handler of \<^verbatim>\<open>handlers\<close> works on: the
  Graph Model, the Command Stack and the view models.\<close>

record scene =
  scene_graph :: graph
  stack :: command_stack
  views :: view_models

text \<open>Modelled from the spec: \<^verbatim>\<open>undo()\<close> pops the most recent applied Command, invokes its
  inverse against the Graph Model and moves it to the redo side; a no-op on an empty
  applied segment. \<^verbatim>\<open>redo()\<close> re-applies the next redo Command.\<close>

definition undo :: "scene \<Rightarrow> scene" where
  "undo s =
     (case applied (stack s) of
        [] \<Rightarrow> s
      | c # cs \<Rightarrow>
          \<lparr>scene_graph = undo_command c (scene_graph s),
           stack = \<lparr>applied = cs, redoable = c # redoable (stack s)\<rparr>,
           views = foldr view_revert (command_changes c) (views s)\<rparr>)"

definition redo :: "scene \<Rightarrow> scene" where
  "redo s =
     (case redoable (stack s) of
        [] \<Rightarrow> s
      | c # cs \<Rightarrow>
          \<lparr>scene_graph = redo_command c (scene_graph s),
           stack = \<lparr>applied = c # applied (stack s), redoable = cs\<rparr>,
           views = fold view_apply (command_changes c) (views s)\<rparr>)"

text \<open>Modelled from the spec: the interaction intents the Scene Handler of \<^verbatim>\<open>handlers\<close>
  translates into Graph Model calls.\<close>

datatype intent =
    CreateNode ident node
  | DeleteNode ident
  | Connect ident conn_ref conn_ref
  | Disconnect ident
  | EditAttribute ident string attr_value

text \<open>Modelled from the spec: what the Scene Handler of \<^verbatim>\<open>handlers\<close> does with the result of
  a Graph Model call. A successful mutation is recorded: the Command built from its change
  events is pushed and the events are forwarded to the view models. A failed one changes
  nothing.\<close>

definition commit :: "failure + graph \<times> change list \<Rightarrow> scene \<Rightarrow> (failure + command) \<times> scene" where
  "commit r s =
     (case r of
        Inl f \<Rightarrow> (Inl f, s)
      | Inr (g', cs) \<Rightarrow>
          (Inr (make_command cs),
           \<lparr>scene_graph = g', stack = push (make_command cs) (stack s),
            views = fold view_apply cs (views s)\<rparr>))"

text \<open>Modelled from the spec: \<^verbatim>\<open>handle(intent) -> CommandResult\<close>. A connect-intent is
  validated for direction compatibility and single-input occupancy before committing.\<close>

fun handle :: "intent \<Rightarrow> scene \<Rightarrow> (failure + command) \<times> scene" where
  "handle (CreateNode nid n) s = commit (addNode (scene_graph s) nid n) s"
| "handle (DeleteNode nid) s = commit (removeNode (scene_graph s) nid) s"
| "handle (Connect eid a b) s =
     (case (lookup_connection (scene_graph s) a, lookup_connection (scene_graph s) b) of
        (Some ca, Some cb) \<Rightarrow>
          if conn_direction ca = conn_direction cb then (Inl IncompatibleDirection, s)
          else if occupied (scene_graph s) (if conn_direction ca = Input then a else b)
          then (Inl InputAlreadyOccupied, s)
          else commit (addEdge (scene_graph s) eid \<lparr>edge_source = a, edge_destination = b\<rparr>) s
      | _ \<Rightarrow> (Inl DanglingConnection, s))"
| "handle (Disconnect eid) s = commit (removeEdge (scene_graph s) eid) s"
| "handle (EditAttribute nid key v) s = commit (setAttribute (scene_graph s) nid key v) s"

text \<open>Modelled from the spec: a sequence of intents, handled by the Scene Handler one after
  the other.\<close>

definition handle_all :: "intent list \<Rightarrow> scene \<Rightarrow> scene" where
  "handle_all intents s = foldl (\<lambda>s i. snd (handle i s)) s intents"

section \<open>Examples\<close>

text \<open>A settings file with a \<^verbatim>\<open>Preferences\<close> group and an empty recent-files array, a main
  window with one dock widget, and a small graph: node A with an output, node B with an
  input and an output, and one edge from A to B.\<close>

definition ex_file :: "(string \<times> qvariant) list" where
  "ex_file = [(''Preferences/default/font'', Str ''mono''), (''RecentFiles/size'', Num 0)]"

definition ex_settings :: settings where
  "ex_settings = \<lparr>store = ex_file, groupStack = [], max_files = 1, parent = None\<rparr>"

text \<open>The same kind of file with three recent files stored, opened once with
  \<^verbatim>\<open>max_files = -1\<close> and once with \<^verbatim>\<open>max_files = 2\<close>.\<close>

definition ex_three_file :: "(string \<times> qvariant) list" where
  "ex_three_file =
     [(''Preferences/default/font'', Str ''mono''), (''RecentFiles/size'', Num 3),
      (''RecentFiles/1/file'', Str ''a.json''), (''RecentFiles/2/file'', Str ''b.json''),
      (''RecentFiles/3/file'', Str ''c.json'')]"

definition ex_negative_max :: settings where
  "ex_negative_max = \<lparr>store = ex_three_file, groupStack = [], max_files = - 1, parent = None\<rparr>"

definition ex_max_two :: settings where
  "ex_max_two = \<lparr>store = ex_three_file, groupStack = [], max_files = 2, parent = None\<rparr>"

definition ex_window :: main_window where
  "ex_window = \<lparr>geometry = ''G1'', windowState = ''S1'',
                 docks = [\<lparr>objectName = ''NodesDock'', dock_geometry = ''D1''\<rparr>]\<rparr>"

definition ex_docked :: settings where
  "ex_docked = \<lparr>store = ex_file, groupStack = [], max_files = 10, parent = Some ex_window\<rparr>"

definition ex_saved :: settings where
  "ex_saved = ex_docked\<lparr>store := ex_file @
      [(''MainWindow/geometry/mine'', Blob ''G1''), (''MainWindow/windowState/mine'', Blob ''S1''),
       (''NodesDock/geometry/mine'', Blob ''D1'')]\<rparr>"

definition ex_nodeA :: node where
  "ex_nodeA = \<lparr>node_name = ''A'', node_position = (0, 0), attributes = Map.empty,
                connections = [\<lparr>conn_name = ''out1'', conn_direction = Output\<rparr>]\<rparr>"

definition ex_nodeB :: node where
  "ex_nodeB = \<lparr>node_name = ''B'', node_position = (4, 0), attributes = Map.empty,
                connections = [\<lparr>conn_name = ''in1'', conn_direction = Input\<rparr>,
                               \<lparr>conn_name = ''out1'', conn_direction = Output\<rparr>]\<rparr>"

definition ex_graph :: graph where
  "ex_graph = \<lparr>nodes = [(1, ex_nodeA), (2, ex_nodeB)],
                edges = [(10, \<lparr>edge_source = (1, ''out1''), edge_destination = (2, ''in1'')\<rparr>)]\<rparr>"

definition ex_scene :: scene where
  "ex_scene = \<lparr>scene_graph = ex_graph, stack = \<lparr>applied = [], redoable = []\<rparr>,
                views = \<lparr>nodes_list = [1, 2], edges_list = [10],
                         table_rows = [(1, ''A''), (2, ''B'')]\<rparr>\<rparr>"

definition ex_intents :: "intent list" where
  "ex_intents = [DeleteNode 1, CreateNode 3 ex_nodeA, EditAttribute 2 ''visible'' (ABool True)]"

section \<open>Properties of the recent-files list\<close>

lemma dec_nonempty: "dec n \<noteq> []"
  by (subst dec.simps) simp

lemma length_dec_ge2: "10 \<le> n \<Longrightarrow> 2 \<le> length (dec n)"
  using dec_nonempty [of "n div 10"]
  by (subst dec.simps) (cases "dec (n div 10)"; simp)

lemma digit_char_inj: "a < 10 \<Longrightarrow> b < 10 \<Longrightarrow> digit_char a = digit_char b \<Longrightarrow> a = b"
proof -
  assume a: "a < 10" and b: "b < 10" and e: "digit_char a = digit_char b"
  from e have "(of_char (char_of (48 + a) :: char) :: nat) = of_char (char_of (48 + b) :: char)"
    by (simp add: digit_char_def)
  with a b show ?thesis by (simp)
qed

lemma dec_inj: "dec a = dec b \<Longrightarrow> a = b"
proof (induction a arbitrary: b rule: dec.induct)
  case (1 n)
  show ?case
  proof (cases "n < 10")
    case True
    then have l: "length (dec n) = 1" by (subst dec.simps) simp
    have "b < 10"
    proof (rule ccontr)
      assume "\<not> b < 10"
      then have "2 \<le> length (dec b)" using length_dec_ge2 by simp
      with l "1.prems" show False by simp
    qed
    with True "1.prems" show ?thesis
      by (subst (asm) dec.simps, subst (asm) (2) dec.simps) (simp add: digit_char_inj)
  next
    case False
    then have l: "2 \<le> length (dec n)" using length_dec_ge2 by simp
    have nb: "\<not> b < 10"
    proof
      assume "b < 10"
      then have "length (dec b) = 1" by (subst dec.simps) simp
      with l "1.prems" show False by simp
    qed
    have en: "dec n = dec (n div 10) @ [digit_char (n mod 10)]"
      using False by (subst dec.simps) simp
    have eb: "dec b = dec (b div 10) @ [digit_char (b mod 10)]"
      using nb by (subst dec.simps) simp
    from en eb "1.prems" have q: "dec (n div 10) = dec (b div 10)"
      and r: "digit_char (n mod 10) = digit_char (b mod 10)" by simp_all
    from "1.IH" [OF False q] have "n div 10 = b div 10" .
    moreover from r have "n mod 10 = b mod 10" by (simp add: digit_char_inj)
    ultimately show ?thesis by (metis div_mult_mod_eq)
  qed
qed


lemma number_Suc: "number (int i + 1) = dec (Suc i)"
  by (simp add: number_def nat_add_distrib)

lemma read_files_eq:
  "groupStack s = g # gs \<Longrightarrow> str g = ''RecentFiles'' \<Longrightarrow> num g \<noteq> - 1 \<Longrightarrow> maxNum g = - 1 \<Longrightarrow>
   \<exists>n. read_files is acc s =
     (acc @ map (lookup_file (store s) (groupPrefix_of gs @ ''RecentFiles/'')) is,
      s\<lparr>groupStack := g\<lparr>num := n\<rparr> # gs\<rparr>) \<and> n \<noteq> - 1"
proof (induction "is" arbitrary: acc s g)
  case Nil
  then show ?case by (intro exI [of _ "num g"]) simp
next
  case (Cons i "is")
  let ?s1 = "setArrayIndex (int i) s"
  let ?g1 = "g\<lparr>num := int i + 1\<rparr>"
  have s1: "?s1 = s\<lparr>groupStack := ?g1 # gs\<rparr>"
    using Cons.prems by (simp add: setArrayIndex_def isArray_def group_setArrayIndex_def Let_def)
  have v: "qvalue ?s1 ''file'' = lookup_file (store s) (groupPrefix_of gs @ ''RecentFiles/'') i"
    using Cons.prems
    by (simp add: s1 qvalue_def actualKey_def groupPrefix_def group_toString_def
        lookup_file_def number_Suc)
  from Cons.IH [of ?s1 ?g1 "acc @ [lookup_file (store s) (groupPrefix_of gs @ ''RecentFiles/'') i]"]
    Cons.prems
  obtain n where "read_files is (acc @ [lookup_file (store s) (groupPrefix_of gs @ ''RecentFiles/'') i]) ?s1 =
     ((acc @ [lookup_file (store s) (groupPrefix_of gs @ ''RecentFiles/'') i]) @
        map (lookup_file (store ?s1) (groupPrefix_of gs @ ''RecentFiles/'')) is,
      ?s1\<lparr>groupStack := ?g1\<lparr>num := n\<rparr> # gs\<rparr>)" and "n \<noteq> - 1"
    by (auto simp: s1)
  then show ?case
    by (intro exI [of _ n]) (simp add: v Let_def, simp add: s1)
qed

lemma getRecentFiles_eq: "getRecentFiles s = (stored_files s, s)"
proof -
  let ?g = "\<lparr>str = ''RecentFiles'', num = 0, maxNum = - 1\<rparr>"
  let ?s1 = "s\<lparr>groupStack := ?g # groupStack s\<rparr>"
  let ?base = "groupPrefix s @ ''RecentFiles/''"
  let ?sz = "case map_of (store s) (?base @ ''size'') of None \<Rightarrow> Invalid | Some v \<Rightarrow> v"
  have b: "beginReadArray ''RecentFiles'' s = (toInt ?sz, ?s1)"
    by (simp add: beginReadArray_def beginGroupOrArray_def Let_def qvalue_def actualKey_def
        groupPrefix_def group_toString_def)
  from read_files_eq [of ?s1 ?g "groupStack s" "[0..<nat (toInt ?sz)]" "[]"]
  obtain n where r: "read_files [0..<nat (toInt ?sz)] [] ?s1 =
     (map (lookup_file (store s) ?base) [0..<nat (toInt ?sz)],
      ?s1\<lparr>groupStack := ?g\<lparr>num := n\<rparr> # groupStack s\<rparr>)"
    by (auto simp: groupPrefix_def)
  have e: "endArray (?s1\<lparr>groupStack := ?g\<lparr>num := n\<rparr> # groupStack s\<rparr>) = s"
    by (simp add: endArray_def)
  show ?thesis
    unfolding getRecentFiles_def b
    by (simp only: r e split_conv Let_def stored_files_def)
qed


lemma write_files_snoc:
  "write_files (is @ [i]) rf s = setValue ''file'' (rf ! i) (setArrayIndex (int i) (write_files is rf s))"
  by (induction "is" arbitrary: s) simp_all

lemma entry_key_neq_size: "base @ dec (Suc i) @ ''/file'' \<noteq> base @ ''size''"
proof
  assume "base @ dec (Suc i) @ ''/file'' = base @ ''size''"
  then have "length (dec (Suc i) @ ''/file'') = length ''size''" by simp
  then show False by simp
qed

lemma write_files_inv:
  assumes "groupStack s = \<lparr>str = ''RecentFiles'', num = 0, maxNum = 0\<rparr> # gs"
  shows "groupStack (write_files [0..<n] rf s) =
           \<lparr>str = ''RecentFiles'', num = int n, maxNum = int n\<rparr> # gs \<and>
         (\<forall>i<n. map_of (store (write_files [0..<n] rf s))
                   (groupPrefix_of gs @ ''RecentFiles/'' @ dec (Suc i) @ ''/file'') = Some (rf ! i))"
proof (induction n)
  case 0
  then show ?case using assms by simp
next
  case (Suc n)
  let ?sn = "write_files [0..<n] rf s"
  let ?g = "\<lparr>str = ''RecentFiles'', num = int n + 1, maxNum = int n + 1\<rparr>"
  from Suc have gs: "groupStack ?sn = \<lparr>str = ''RecentFiles'', num = int n, maxNum = int n\<rparr> # gs"
    and st: "\<forall>i<n. map_of (store ?sn)
                   (groupPrefix_of gs @ ''RecentFiles/'' @ dec (Suc i) @ ''/file'') = Some (rf ! i)"
    by simp_all
  have a: "setArrayIndex (int n) ?sn = ?sn\<lparr>groupStack := ?g # gs\<rparr>"
    by (simp add: setArrayIndex_def gs isArray_def group_setArrayIndex_def Let_def)
  have k: "actualKey (?sn\<lparr>groupStack := ?g # gs\<rparr>) ''file'' =
             groupPrefix_of gs @ ''RecentFiles/'' @ dec (Suc n) @ ''/file''"
    by (simp add: actualKey_def groupPrefix_def group_toString_def number_Suc)
  have w: "write_files ([0..<n] @ [n]) rf s =
      ?sn\<lparr>groupStack := ?g # gs,
          store := AList.update (groupPrefix_of gs @ ''RecentFiles/'' @ dec (Suc n) @ ''/file'')
                     (rf ! n) (store ?sn)\<rparr>"
    by (simp add: write_files_snoc a setValue_def k)
  show ?case
  proof (intro conjI allI impI)
    show "groupStack (write_files [0..<Suc n] rf s) =
        \<lparr>str = ''RecentFiles'', num = int (Suc n), maxNum = int (Suc n)\<rparr> # gs"
      by (simp add: w)
  next
    fix i assume "i < Suc n"
    show "map_of (store (write_files [0..<Suc n] rf s))
           (groupPrefix_of gs @ ''RecentFiles/'' @ dec (Suc i) @ ''/file'') = Some (rf ! i)"
    proof (cases "i = n")
      case True
      then show ?thesis by (simp add: w AList.update_conv')
    next
      case False
      with \<open>i < Suc n\<close> have "i < n" by simp
      moreover from False have "dec (Suc i) \<noteq> dec (Suc n)" using dec_inj by blast
      ultimately show ?thesis using st by (simp add: w AList.update_conv')
    qed
  qed
qed

lemma stored_files_addRecentFile:
  "stored_files (addRecentFile f s) = filter (\<lambda>x. x \<noteq> f) (stored_files s) @ [f]"
proof -
  define rf where "rf = filter (\<lambda>x. x \<noteq> f) (stored_files s) @ [f]"
  define n where "n = length rf"
  define s2 where "s2 = beginWriteArray ''RecentFiles'' (- 1) s"
  define s3 where "s3 = write_files [0..<n] rf s2"
  let ?g0 = "\<lparr>str = ''RecentFiles'', num = 0, maxNum = 0\<rparr>"
  let ?base = "groupPrefix s @ ''RecentFiles/''"
  have rf: "(if f \<in> set (stored_files s) then filter (\<lambda>x. x \<noteq> f) (stored_files s)
             else stored_files s) @ [f] = rf"
  proof (cases "f \<in> set (stored_files s)")
    case True
    then show ?thesis by (simp add: rf_def)
  next
    case False
    then have "filter (\<lambda>x. x \<noteq> f) (stored_files s) = stored_files s"
      by (auto simp: filter_id_conv)
    with False show ?thesis by (simp add: rf_def)
  qed
  have g2: "groupStack s2 = ?g0 # groupStack s"
    by (simp add: s2_def beginWriteArray_def beginGroupOrArray_def remove_def Let_def)
  from write_files_inv [OF g2, of n rf]
  have g3: "groupStack s3 = \<lparr>str = ''RecentFiles'', num = int n, maxNum = int n\<rparr> # groupStack s"
    and st3: "\<forall>i<n. map_of (store s3) (?base @ dec (Suc i) @ ''/file'') = Some (rf ! i)"
    by (simp_all add: groupPrefix_def s3_def)
  have a: "addRecentFile f s = endArray s3"
    unfolding addRecentFile_def getRecentFiles_eq
    by (simp only: split_conv Let_def rf s2_def s3_def n_def)
  have e: "endArray s3 =
      s3\<lparr>groupStack := groupStack s,
          store := AList.update (?base @ ''size'') (Num (int n)) (store s3)\<rparr>"
    by (simp add: endArray_def g3 Let_def setValue_def actualKey_def groupPrefix_def)
  have p: "groupPrefix (addRecentFile f s) = groupPrefix s"
    by (simp add: a e groupPrefix_def)
  have sz: "map_of (store (addRecentFile f s)) (?base @ ''size'') = Some (Num (int n))"
    by (simp add: a e AList.update_conv')
  have l: "lookup_file (store (addRecentFile f s)) ?base i = rf ! i" if "i < n" for i
  proof -
    from that st3 have "map_of (store s3) (?base @ dec (Suc i) @ ''/file'') = Some (rf ! i)"
      by blast
    then show ?thesis
      using entry_key_neq_size [of ?base i]
      by (simp add: lookup_file_def a e AList.update_conv' del: append_assoc)
  qed
  have "stored_files (addRecentFile f s) = map (\<lambda>i. rf ! i) [0..<n]"
    unfolding stored_files_def Let_def p sz
    using l by simp
  also have "\<dots> = rf" unfolding n_def by (rule map_nth)
  finally show ?thesis by (simp add: rf_def)
qed

lemma map_of_filter_out:
  "\<not> P k \<Longrightarrow> map_of (filter (\<lambda>(k', v). P k') kvs) k = None"
  by (induction kvs) auto

lemma stored_files_clear: "stored_files (clearRecentFiles s) = []"
proof -
  let ?base = "groupPrefix s @ ''RecentFiles/''"
  have k: "groupPrefix s @ ''RecentFiles'' \<noteq> []" by simp
  have st: "store (clearRecentFiles s) = remove_key (groupPrefix s @ ''RecentFiles'') (store s)"
    by (simp add: clearRecentFiles_def remove_def Let_def)
  have p: "groupPrefix (clearRecentFiles s) = groupPrefix s"
    by (simp add: clearRecentFiles_def remove_def Let_def groupPrefix_def)
  have "starts_with ((groupPrefix s @ ''RecentFiles'') @ ''/'') (?base @ ''size'')"
    by (simp add: starts_with_def)
  then have "map_of (store (clearRecentFiles s)) (?base @ ''size'') = None"
    unfolding st remove_key_def
    by (intro map_of_filter_out) simp
  then show ?thesis
    by (simp add: stored_files_def Let_def p)
qed

text \<open>C10. For every Settings state, after \<^verbatim>\<open>clearRecentFiles\<close> the sequence that
  \<^verbatim>\<open>getRecentFiles\<close> returns is empty: \<^verbatim>\<open>remove('RecentFiles')\<close> deletes the array's \<^verbatim>\<open>size\<close>
  entry with everything else below \<^verbatim>\<open>RecentFiles\<close>, and a missing size reads as 0.\<close>

theorem clearRecentFiles_empties: "fst (getRecentFiles (clearRecentFiles s)) = []"
  by (simp add: getRecentFiles_eq stored_files_clear)

lemma foldl_snoc: "foldl (\<lambda>tmp f. tmp @ [f]) acc xs = acc @ xs"
  by (induction xs arbitrary: acc) simp_all

text \<open>C9, amended. For every Settings state whose \<^verbatim>\<open>max_files\<close> is not negative, the
  property \<^verbatim>\<open>recent_files\<close> is the reverse of what \<^verbatim>\<open>getRecentFiles\<close> returns, cut to its first
  \<^verbatim>\<open>max_files\<close> elements: most recent first, and never longer than \<^verbatim>\<open>max_files\<close>, however
  long the stored list is.\<close>

theorem recent_files_reversed_capped:
  "0 \<le> max_files s \<Longrightarrow>
     fst (recent_files s) = take (nat (max_files s)) (rev (fst (getRecentFiles s))) \<and>
     int (length (fst (recent_files s))) \<le> max_files s"
  by (simp add: recent_files_def getRecentFiles_eq foldl_snoc slice_to_def)

lemma stored_files_add_all:
  "distinct fs \<Longrightarrow>
   stored_files (foldl (\<lambda>s f. addRecentFile f s) s fs) =
     filter (\<lambda>x. x \<notin> set fs) (stored_files s) @ fs"
proof (induction fs rule: rev_induct)
  case Nil
  then show ?case by simp
next
  case (snoc f fs)
  then have d: "distinct fs" and nf: "f \<notin> set fs" by simp_all
  have "filter (\<lambda>x. x \<noteq> f) fs = fs" using nf by (auto simp: filter_id_conv)
  moreover have "filter (\<lambda>x. x \<noteq> f) (filter (\<lambda>x. x \<notin> set fs) (stored_files s)) =
      filter (\<lambda>x. x \<notin> set (fs @ [f])) (stored_files s)"
    by (auto intro: filter_cong)
  ultimately show ?case
    using snoc.IH [OF d] by (simp add: stored_files_addRecentFile)
qed

lemma length_add_all:
  "length (stored_files (foldl (\<lambda>s f. addRecentFile f s) s fs)) \<le> length (stored_files s) + length fs"
proof (induction fs rule: rev_induct)
  case Nil
  then show ?case by simp
next
  case (snoc f fs)
  have "length (filter (\<lambda>x. x \<noteq> f) (stored_files (foldl (\<lambda>s f. addRecentFile f s) s fs)))
      \<le> length (stored_files (foldl (\<lambda>s f. addRecentFile f s) s fs))"
    by (rule length_filter_le)
  from this snoc have "length (filter (\<lambda>x. x \<noteq> f) (stored_files (foldl (\<lambda>s f. addRecentFile f s) s fs)))
      \<le> length (stored_files s) + length fs"
    by (rule le_trans)
  then show ?case by (simp add: stored_files_addRecentFile)
qed

lemma end_groups_top: "groupStack s = [] \<Longrightarrow> end_groups s = s"
  by (subst end_groups.simps) (simp add: group_def groupPrefix_def)

lemma ex_childGroups: "childGroups ex_settings = [''Preferences'', ''RecentFiles'']"
  by (simp add: childGroups_def allKeys_def groupPrefix_def starts_with_def ex_settings_def ex_file_def)

lemma ex_init: "Settings_init ex_file None 1 = Inr ex_settings"
proof -
  have i: "Settings_init ex_file None 1 = initialize ex_settings"
    by (simp add: Settings_init_def ex_settings_def)
  have p: "parent ex_settings = None" and g: "groupStack ex_settings = []"
    by (simp_all add: ex_settings_def)
  show ?thesis
    unfolding i initialize_def Let_def initializePreferences_def
    by (simp add: ex_childGroups p end_groups_top [OF g])
qed

lemma ex_stored: "stored_files ex_settings = []"
  by (simp add: stored_files_def ex_settings_def ex_file_def groupPrefix_def Let_def)

text \<open>C1, as stated, fails. A Settings instance constructed with \<^verbatim>\<open>max_files = 1\<close> on a
  file holding a \<^verbatim>\<open>Preferences\<close> group and an empty \<^verbatim>\<open>RecentFiles\<close> array returns two paths
  from \<^verbatim>\<open>getRecentFiles\<close> after \<^verbatim>\<open>addRecentFile\<close> of two different paths: \<^verbatim>\<open>addRecentFile\<close>
  writes the whole list back and never looks at \<^verbatim>\<open>_max_files\<close>.\<close>

theorem getRecentFiles_exceeds_max_files: "Settings_init ex_file None 1 = Inr ex_settings \<and>
  \<not> int (length (fst (getRecentFiles
        (addRecentFile (Str ''b.json'') (addRecentFile (Str ''a.json'') ex_settings))))) \<le> max_files ex_settings"
  by (simp add: ex_init getRecentFiles_eq stored_files_addRecentFile ex_stored) (simp add: ex_settings_def)

text \<open>C4. For every recent-files state and every path \<open>p\<close>, after \<^verbatim>\<open>addRecentFile(p)\<close> the
  sequence \<^verbatim>\<open>getRecentFiles\<close> returns is the old one without \<open>p\<close>, followed by \<open>p\<close>: it holds
  \<open>p\<close> exactly once, \<open>p\<close> is last, and the other paths keep their relative order.\<close>

theorem addRecentFile_moves_to_end:
  "let before = fst (getRecentFiles s);
       after = fst (getRecentFiles (addRecentFile p s))
   in after = filter (\<lambda>x. x \<noteq> p) before @ [p] \<and>
      count_list after p = 1 \<and> last after = p \<and>
      filter (\<lambda>x. x \<noteq> p) after = filter (\<lambda>x. x \<noteq> p) before"
proof -
  have "count_list (filter (\<lambda>x. x \<noteq> p) (stored_files s)) p = 0"
    by (simp add: count_list_0_iff)
  then show ?thesis
    by (simp add: getRecentFiles_eq stored_files_addRecentFile Let_def)
qed

theorem addRecentFile_moves_to_end_witness:
  "let before = fst (getRecentFiles ex_settings);
       after = fst (getRecentFiles (addRecentFile (Str ''a.json'') ex_settings))
   in after = filter (\<lambda>x. x \<noteq> Str ''a.json'') before @ [Str ''a.json''] \<and>
      count_list after (Str ''a.json'') = 1 \<and> last after = Str ''a.json'' \<and>
      filter (\<lambda>x. x \<noteq> Str ''a.json'') after = filter (\<lambda>x. x \<noteq> Str ''a.json'') before"
  by (rule addRecentFile_moves_to_end)

text \<open>C5. For every sequence of \<^verbatim>\<open>addRecentFile\<close> calls with distinct paths,
  \<^verbatim>\<open>getRecentFiles\<close> returns the added paths in call order at the end, the most recently
  added one last; paths stored before and not added again precede them in their old
  order.\<close>

theorem recent_files_in_call_order:
  "distinct fs \<Longrightarrow>
   fst (getRecentFiles (foldl (\<lambda>s f. addRecentFile f s) s fs)) =
     filter (\<lambda>x. x \<notin> set fs) (fst (getRecentFiles s)) @ fs"
  by (simp add: getRecentFiles_eq stored_files_add_all)

theorem recent_files_in_call_order_witness:
  "distinct [Str ''a.json'', Str ''b.json'', Str ''c.json''] \<and>
   fst (getRecentFiles (foldl (\<lambda>s f. addRecentFile f s) ex_settings
          [Str ''a.json'', Str ''b.json'', Str ''c.json''])) =
     [Str ''a.json'', Str ''b.json'', Str ''c.json'']"
proof -
  have d: "distinct [Str ''a.json'', Str ''b.json'', Str ''c.json'']" by simp
  have e: "fst (getRecentFiles ex_settings) = []"
    by (simp add: getRecentFiles_eq ex_stored)
  from d recent_files_in_call_order [OF d, of ex_settings] show ?thesis
    by (simp only: e filter.simps append_Nil simp_thms)
qed

text \<open>C1, amended. Every call of \<^verbatim>\<open>addRecentFile\<close> lengthens the sequence that
  \<^verbatim>\<open>getRecentFiles\<close> returns by at most one, so after a sequence of calls its length is at
  most the length before plus the number of calls; \<^verbatim>\<open>max_files\<close> plays no part.\<close>

theorem getRecentFiles_length_bound:
  "length (fst (getRecentFiles (foldl (\<lambda>s f. addRecentFile f s) s fs)))
     \<le> length (fst (getRecentFiles s)) + length fs"
  by (simp add: getRecentFiles_eq length_add_all)

theorem getRecentFiles_length_bound_witness:
  "length (fst (getRecentFiles (foldl (\<lambda>s f. addRecentFile f s) ex_settings
            [Str ''a.json'', Str ''b.json''])))
     \<le> length (fst (getRecentFiles ex_settings)) + length [Str ''a.json'', Str ''b.json'']"
  by (rule getRecentFiles_length_bound)

lemma dec_digit: "n < 10 \<Longrightarrow> dec n = [digit_char n]"
  by (subst dec.simps) simp

lemma ex_three_stored:
  "stored_files \<lparr>store = ex_three_file, groupStack = [], max_files = n, parent = None\<rparr> =
     [Str ''a.json'', Str ''b.json'', Str ''c.json'']"
proof -
  have u: "[0..<3] = [0, Suc 0, Suc (Suc 0)]" by (simp add: upt_rec)
  have c1: "digit_char (Suc 0) = CHR ''1''" by code_simp
  have c2: "digit_char (Suc (Suc 0)) = CHR ''2''" by code_simp
  have c3: "digit_char (Suc (Suc (Suc 0))) = CHR ''3''" by code_simp
  have d1: "dec (Suc 0) = ''1''" by (simp add: dec_digit c1)
  have d2: "dec (Suc (Suc 0)) = ''2''" by (simp add: dec_digit c2)
  have d3: "dec (Suc (Suc (Suc 0))) = ''3''" by (simp add: dec_digit c3)
  show ?thesis
    by (simp add: stored_files_def groupPrefix_def ex_three_file_def Let_def u lookup_file_def d1 d2 d3)
qed

lemma ex_three_childGroups:
  "childGroups \<lparr>store = ex_three_file, groupStack = [], max_files = n, parent = None\<rparr> =
     [''Preferences'', ''RecentFiles'']"
  by (simp add: childGroups_def allKeys_def groupPrefix_def starts_with_def ex_three_file_def)

lemma ex_three_init:
  "Settings_init ex_three_file None n =
     Inr \<lparr>store = ex_three_file, groupStack = [], max_files = n, parent = None\<rparr>"
  unfolding Settings_init_def initialize_def Let_def initializePreferences_def
  by (simp add: ex_three_childGroups end_groups_top)

text \<open>C9, as stated, fails. \<^verbatim>\<open>__init__\<close> stores whatever \<^verbatim>\<open>max_files\<close> it is given; with
  \<^verbatim>\<open>max_files = -1\<close> and three stored paths the slice \<^verbatim>\<open>tmp[:-1]\<close> drops the last element of
  the reversed list, so the property returns two paths: that is not the reversed list cut
  to its first \<^verbatim>\<open>max_files\<close> elements, and its length exceeds \<^verbatim>\<open>max_files\<close>.\<close>

theorem recent_files_negative_max_files:
  "Settings_init ex_three_file None (- 1) = Inr ex_negative_max \<and>
   fst (getRecentFiles ex_negative_max) = [Str ''a.json'', Str ''b.json'', Str ''c.json''] \<and>
   fst (recent_files ex_negative_max) = [Str ''c.json'', Str ''b.json''] \<and>
   fst (recent_files ex_negative_max) \<noteq>
     take (nat (max_files ex_negative_max)) (rev (fst (getRecentFiles ex_negative_max))) \<and>
   \<not> int (length (fst (recent_files ex_negative_max))) \<le> max_files ex_negative_max"
proof -
  have i: "Settings_init ex_three_file None (- 1) = Inr ex_negative_max"
    by (simp add: ex_three_init ex_negative_max_def)
  have g: "fst (getRecentFiles ex_negative_max) = [Str ''a.json'', Str ''b.json'', Str ''c.json'']"
    by (simp add: getRecentFiles_eq ex_negative_max_def ex_three_stored)
  have m: "max_files ex_negative_max = - 1" by (simp add: ex_negative_max_def)
  have r: "fst (recent_files ex_negative_max) = [Str ''c.json'', Str ''b.json'']"
    by (simp add: recent_files_def getRecentFiles_eq foldl_snoc slice_to_def m)
       (simp add: ex_negative_max_def ex_three_stored)
  show ?thesis
    by (simp add: i g r m)
qed

theorem recent_files_reversed_capped_witness:
  "0 \<le> max_files ex_max_two \<and>
   fst (getRecentFiles ex_max_two) = [Str ''a.json'', Str ''b.json'', Str ''c.json''] \<and>
   fst (recent_files ex_max_two) = [Str ''c.json'', Str ''b.json''] \<and>
   fst (recent_files ex_max_two) =
     take (nat (max_files ex_max_two)) (rev (fst (getRecentFiles ex_max_two))) \<and>
   int (length (fst (recent_files ex_max_two))) \<le> max_files ex_max_two"
proof -
  have h: "0 \<le> max_files ex_max_two" by (simp add: ex_max_two_def)
  have g: "fst (getRecentFiles ex_max_two) = [Str ''a.json'', Str ''b.json'', Str ''c.json'']"
    by (simp add: getRecentFiles_eq ex_max_two_def ex_three_stored)
  have m: "nat (max_files ex_max_two) = 2" by (simp add: ex_max_two_def)
  have e: "fst (recent_files ex_max_two) =
      take (nat (max_files ex_max_two)) (rev (fst (getRecentFiles ex_max_two)))"
    by (rule recent_files_reversed_capped [OF h, THEN conjunct1])
  have l: "int (length (fst (recent_files ex_max_two))) \<le> max_files ex_max_two"
    by (rule recent_files_reversed_capped [OF h, THEN conjunct2])
  have "fst (recent_files ex_max_two) = [Str ''c.json'', Str ''b.json'']"
    by (simp add: e g m)
  with h g e l show ?thesis by blast
qed

theorem clearRecentFiles_empties_witness:
  "fst (getRecentFiles (clearRecentFiles (addRecentFile (Str ''a.json'') ex_settings))) = []"
  by (rule clearRecentFiles_empties)

section \<open>Properties of construction and of layout restore\<close>

lemma childGroups_top:
  "groupStack s = [] \<Longrightarrow>
   (g \<in> set (childGroups s)) =
     (\<exists>k \<in> fst ` set (store s). CHR ''/'' \<in> set k \<and> takeWhile (\<lambda>c. c \<noteq> CHR ''/'') k = g)"
  by (auto simp: childGroups_def allKeys_def groupPrefix_def starts_with_def)

lemma groupStack_setValue: "groupStack (setValue k v s) = groupStack s"
  by (simp add: setValue_def)

lemma childGroups_setValue:
  "groupStack s = [] \<Longrightarrow>
   (g \<in> set (childGroups (setValue k v s))) =
     ((CHR ''/'' \<in> set k \<and> takeWhile (\<lambda>c. c \<noteq> CHR ''/'') k = g) \<or> g \<in> set (childGroups s))"
proof -
  assume t: "groupStack s = []"
  have "fst ` set (store (setValue k v s)) = {k} \<union> fst ` set (store s)"
    using t by (simp add: setValue_def actualKey_def groupPrefix_def AList.dom_update)
  then show ?thesis
    using t by (auto simp: childGroups_top groupStack_setValue)
qed

lemma write_empty_array:
  "groupStack s = [] \<Longrightarrow>
   endArray (beginWriteArray ''RecentFiles'' 0 s) = setValue ''RecentFiles/size'' (Num 0) s"
  by (simp add: beginWriteArray_def beginGroupOrArray_def endArray_def setValue_def actualKey_def
      groupPrefix_def group_toString_def Let_def)

lemma initializePreferences_NameError:
  "''Preferences'' \<notin> set (childGroups s) \<Longrightarrow> initializePreferences s = Inl NameError"
  by (simp add: initializePreferences_def module_options_def Let_def)

lemma initialize_NameError:
  assumes t: "groupStack s = []" and np: "''Preferences'' \<notin> set (childGroups s)"
  shows "initialize s = Inl NameError"
proof -
  define s1 where "s1 = (if ''MainWindow'' \<notin> set (childGroups s) then
                  (case parent s of
                     None \<Rightarrow> s
                   | Some w \<Rightarrow>
                       setValue ''MainWindow/windowState/default'' (Blob (windowState w))
                         (setValue ''MainWindow/geometry/default'' (Blob (geometry w)) s))
                else s)"
  define s2 where "s2 = (if ''RecentFiles'' \<notin> set (childGroups s1)
                then endArray (beginWriteArray ''RecentFiles'' 0 s1) else s1)"
  have t1: "groupStack s1 = []"
    using t by (simp add: s1_def groupStack_setValue split: option.split)
  have np1: "''Preferences'' \<notin> set (childGroups s1)"
    using t np by (simp add: s1_def childGroups_setValue groupStack_setValue split: option.split)
  have t2: "groupStack s2 = []"
    using t1 by (simp add: s2_def write_empty_array groupStack_setValue)
  have np2: "''Preferences'' \<notin> set (childGroups s2)"
    using t1 np1 by (simp add: s2_def write_empty_array childGroups_setValue)
  have "initialize s = initializePreferences (end_groups s2)"
    by (simp add: initialize_def Let_def s1_def s2_def)
  then show ?thesis
    using t2 np2 by (simp add: end_groups_top initializePreferences_NameError)
qed

text \<open>C8. For every stored settings state without a \<^verbatim>\<open>Preferences\<close> child group, and
  every parent and \<^verbatim>\<open>max_files\<close>, constructing a Settings instance raises \<^verbatim>\<open>NameError\<close>:
  \<^verbatim>\<open>initialize\<close> writes only below \<^verbatim>\<open>MainWindow\<close> and \<^verbatim>\<open>RecentFiles\<close>, then always calls
  \<^verbatim>\<open>initializePreferences\<close>, which reads the unbound global \<^verbatim>\<open>options\<close>.\<close>

theorem Settings_init_NameError:
  "''Preferences'' \<notin> set (childGroups \<lparr>store = file, groupStack = [], max_files = n, parent = par\<rparr>) \<Longrightarrow>
   Settings_init file par n = Inl NameError"
  unfolding Settings_init_def by (rule initialize_NameError) simp_all

theorem Settings_init_NameError_witness:
  "''Preferences'' \<notin> set (childGroups \<lparr>store = [], groupStack = [], max_files = 10, parent = None\<rparr>) \<and>
   Settings_init [] None 10 = Inl NameError"
proof -
  have h: "''Preferences'' \<notin> set (childGroups \<lparr>store = [], groupStack = [], max_files = 10, parent = None\<rparr>)"
    by (simp add: childGroups_def allKeys_def)
  from h Settings_init_NameError [OF h] show ?thesis by simp
qed

text \<open>Restoring a layout that has no keys: without a parent window, or with a parent that
  has no dock widgets, nothing happens; with a first dock widget of any name but
  \<^verbatim>\<open>MainWindow\<close>, the loop reaches \<^verbatim>\<open>dock[0].restoreGeometry(value)\<close> with \<^verbatim>\<open>value\<close>
  unassigned.\<close>

lemma restoreLayout_unsaved_no_docks:
  assumes "parent s = Some w" and "docks w = []"
    and "''MainWindow/geometry/'' @ layout \<notin> set (allKeys s)"
    and "''MainWindow/windowState/'' @ layout \<notin> set (allKeys s)"
  shows "restoreLayout layout s = Inr s"
proof -
  have k: "window_keys s = [''MainWindow'']"
    using assms(1,2) by (simp add: window_keys_def)
  have "restore_widgets s layout [''MainWindow''] None w = Inr w"
    using assms(3,4) by (simp add: Let_def)
  moreover have "s\<lparr>parent := Some w\<rparr> = s"
    using assms(1) by (cases s) simp
  ultimately show ?thesis
    using assms(1) by (simp add: restoreLayout_def k)
qed

lemma restoreLayout_no_parent: "parent s = None \<Longrightarrow> restoreLayout layout s = Inr s"
  by (simp add: restoreLayout_def)

lemma restoreLayout_unsaved_dock_raises:
  assumes "parent s = Some w" and "docks w = d # ds" and "objectName d \<noteq> ''MainWindow''"
    and "''MainWindow/geometry/'' @ layout \<notin> set (allKeys s)"
  shows "restoreLayout layout s = Inl UnboundLocalError"
proof -
  have k: "window_keys s = ''MainWindow'' # objectName d # map objectName ds"
    using assms(1,2) by (simp add: window_keys_def)
  define w2 where "w2 = (if ''MainWindow/windowState/'' @ layout \<in> set (allKeys s)
      then restoreState (qvalue s (''MainWindow/windowState/'' @ layout)) w else w)"
  have d2: "docks w2 = d # ds"
    using assms(2) by (cases "qvalue s (''MainWindow/windowState/'' @ layout)") (simp_all add: w2_def)
  have first: "restore_widgets s layout (''MainWindow'' # objectName d # map objectName ds) None w =
      restore_widgets s layout (objectName d # map objectName ds) None w2"
    using assms(4) by (simp add: Let_def w2_def)
  have "findChildren (objectName d) w2 \<noteq> []"
    by (simp add: findChildren_def d2)
  then have "restore_widgets s layout (objectName d # map objectName ds) None w2 = Inl UnboundLocalError"
    using assms(3) by (simp add: Let_def)
  with first show ?thesis
    using assms(1) by (simp add: restoreLayout_def k)
qed

lemma ex_saveLayout: "saveLayout ''mine'' ex_docked = Inr ex_saved"
  by (simp add: saveLayout_def ex_docked_def ex_saved_def ex_window_def ex_file_def setValue_def
      actualKey_def groupPrefix_def Let_def)

lemma ex_allKeys: "allKeys ex_saved =
   [''Preferences/default/font'', ''RecentFiles/size'', ''MainWindow/geometry/mine'',
    ''MainWindow/windowState/mine'', ''NodesDock/geometry/mine'']"
  by (simp add: allKeys_def ex_saved_def ex_docked_def ex_file_def groupPrefix_def starts_with_def)

text \<open>C2 at a concrete input. The main window has one dock widget \<^verbatim>\<open>NodesDock\<close>; the layout
  \<^verbatim>\<open>mine\<close> is saved, then the layout \<^verbatim>\<open>other\<close>, never saved, is restored. The \<^verbatim>\<open>MainWindow\<close>
  pass finds no key and leaves the local \<^verbatim>\<open>value\<close> unassigned; the pass for the dock reads it
  in \<^verbatim>\<open>dock[0].restoreGeometry(value)\<close> and raises \<^verbatim>\<open>UnboundLocalError\<close>.\<close>

theorem restoreLayout_unsaved_raises:
  "saveLayout ''mine'' ex_docked = Inr ex_saved \<and>
   restoreLayout ''other'' ex_saved = Inl UnboundLocalError"
proof -
  have p: "parent ex_saved = Some ex_window"
    by (simp add: ex_saved_def ex_docked_def)
  have k: "window_keys ex_saved = [''MainWindow'', ''NodesDock'']"
    by (simp add: window_keys_def p) (simp add: ex_window_def)
  have "restore_widgets ex_saved ''other'' [''MainWindow'', ''NodesDock''] None ex_window
          = Inl UnboundLocalError"
    by (simp add: ex_allKeys Let_def findChildren_def) (simp add: ex_window_def)
  then show ?thesis
    by (simp add: ex_saveLayout restoreLayout_def p k)
qed

section \<open>Properties of the graph model, the command stack and the scene handler\<close>

lemma insert_at_Suc: "insert_at (Suc i) x (y # ys) = y # insert_at i x ys"
  by (simp add: insert_at_def)

lemma insert_at_key_index:
  "distinct (map fst kvs) \<Longrightarrow> map_of kvs k = Some v \<Longrightarrow>
   insert_at (key_index k kvs) (k, v) (AList.delete k kvs) = kvs"
proof (induction kvs)
  case Nil
  then show ?case by simp
next
  case (Cons p kvs)
  obtain k' v' where p: "p = (k', v')" by (cases p)
  show ?case
  proof (cases "k' = k")
    case True
    with Cons.prems p have "v' = v" and "k \<notin> fst ` set kvs" by auto
    then show ?thesis
      using True p by (simp add: key_index_def insert_at_def)
  next
    case False
    with Cons.prems p have "distinct (map fst kvs)" and "map_of kvs k = Some v" by auto
    from Cons.IH [OF this] show ?thesis
      using False p by (simp add: key_index_def insert_at_def)
  qed
qed

lemma insert_at_length: "insert_at (length pre) x (pre @ ys) = pre @ x # ys"
  by (simp add: insert_at_def)

lemma cascade_inverse:
  "length pre = j \<Longrightarrow>
   foldr invert_change (edge_removals nid j es)
     (g\<lparr>edges := pre @ filter (\<lambda>(eid, e). \<not> touches nid e) es\<rparr>) = g\<lparr>edges := pre @ es\<rparr>"
proof (induction es arbitrary: j pre)
  case Nil
  then show ?case by simp
next
  case (Cons p es)
  obtain eid e where p: "p = (eid, e)" by (cases p)
  show ?case
  proof (cases "touches nid e")
    case True
    with Cons.IH [OF Cons.prems] Cons.prems show ?thesis
      by (simp add: p insert_at_def)
  next
    case False
    have "length (pre @ [(eid, e)]) = Suc j" using Cons.prems by simp
    from Cons.IH [OF this] False show ?thesis
      by (simp add: p)
  qed
qed

lemma update_same_key: "map_of al k = Some v \<Longrightarrow> AList.update k v (AList.update k v' al) = al"
  by (simp add: AList.update_triv)

lemma addNode_inverse:
  assumes "wf_graph g" and "addNode g nid n = Inr (g', cs)"
  shows "foldr invert_change cs g' = g \<and> wf_graph g'"
proof -
  from assms(2) have none: "map_of (nodes g) nid = None"
    and g': "g' = g\<lparr>nodes := nodes g @ [(nid, n)]\<rparr>" and cs: "cs = [NodeAdded nid n]"
    by (auto simp: addNode_def split: option.splits)
  from none have nk: "nid \<notin> fst ` set (nodes g)" by (simp add: map_of_eq_None_iff)
  then have "AList.delete nid (nodes g @ [(nid, n)]) = nodes g"
    by (force simp: AList.delete_eq filter_id_conv)
  then show ?thesis
    using assms(1) nk by (simp add: g' cs wf_graph_def)
qed

lemma removeEdge_inverse:
  assumes "wf_graph g" and "removeEdge g eid = Inr (g', cs)"
  shows "foldr invert_change cs g' = g \<and> wf_graph g'"
proof -
  from assms(2) obtain e where e: "map_of (edges g) eid = Some e"
    and g': "g' = g\<lparr>edges := AList.delete eid (edges g)\<rparr>"
    and cs: "cs = [EdgeRemoved (key_index eid (edges g)) eid e]"
    by (auto simp: removeEdge_def split: option.splits)
  from assms(1) have d: "distinct (map fst (edges g))" by (simp add: wf_graph_def)
  from insert_at_key_index [OF d e] show ?thesis
    using assms(1) by (simp add: g' cs wf_graph_def AList.distinct_delete)
qed

lemma addEdge_inverse:
  assumes "wf_graph g" and "addEdge g eid e = Inr (g', cs)"
  shows "foldr invert_change cs g' = g \<and> wf_graph g'"
proof -
  from assms(2) have none: "map_of (edges g) eid = None"
    and g': "g' = g\<lparr>edges := edges g @ [(eid, e)]\<rparr>" and cs: "cs = [EdgeAdded eid e]"
    by (auto simp: addEdge_def split: option.splits if_splits)
  from none have nk: "eid \<notin> fst ` set (edges g)" by (simp add: map_of_eq_None_iff)
  then have "AList.delete eid (edges g @ [(eid, e)]) = edges g"
    by (force simp: AList.delete_eq filter_id_conv)
  then show ?thesis
    using assms(1) nk by (simp add: g' cs wf_graph_def)
qed

lemma setAttribute_inverse:
  assumes "wf_graph g" and "setAttribute g nid key v = Inr (g', cs)"
  shows "foldr invert_change cs g' = g \<and> wf_graph g'"
proof -
  from assms(2) obtain n where n: "map_of (nodes g) nid = Some n"
    and g': "g' = g\<lparr>nodes := AList.update nid (n\<lparr>attributes := (attributes n)(key \<mapsto> v)\<rparr>) (nodes g)\<rparr>"
    and cs: "cs = [AttributeChanged nid key (attributes n key) v]"
    by (auto simp: setAttribute_def split: option.splits)
  have restored: "(n\<lparr>attributes := (attributes n)(key \<mapsto> v)\<rparr>)
                \<lparr>attributes := ((attributes n)(key \<mapsto> v))(key := attributes n key)\<rparr> = n"
    by simp
  have "foldr invert_change cs g' = g\<lparr>nodes := AList.update nid n
          (AList.update nid (n\<lparr>attributes := (attributes n)(key \<mapsto> v)\<rparr>) (nodes g))\<rparr>"
    by (simp add: g' cs AList.update_conv' restored)
  also have "\<dots> = g" using n by (simp add: AList.update_triv)
  finally show ?thesis
    using assms(1) by (simp add: g' wf_graph_def AList.distinct_update)
qed

lemma removeNode_inverse:
  assumes "wf_graph g" and "removeNode g nid = Inr (g', cs)"
  shows "foldr invert_change cs g' = g \<and> wf_graph g'"
proof -
  from assms(2) obtain n where n: "map_of (nodes g) nid = Some n"
    and g': "g' = g\<lparr>nodes := AList.delete nid (nodes g),
                     edges := filter (\<lambda>(eid, e). \<not> touches nid e) (edges g)\<rparr>"
    and cs: "cs = edge_removals nid 0 (edges g) @ [NodeRemoved (key_index nid (nodes g)) nid n]"
    by (auto simp: removeNode_def split: option.splits)
  from assms(1) have d: "distinct (map fst (nodes g))" and de: "distinct (map fst (edges g))"
    by (simp_all add: wf_graph_def)
  have "invert_change (NodeRemoved (key_index nid (nodes g)) nid n) g' =
          g\<lparr>edges := [] @ filter (\<lambda>(eid, e). \<not> touches nid e) (edges g)\<rparr>"
    using insert_at_key_index [OF d n] by (simp add: g')
  then have "foldr invert_change cs g' = g\<lparr>edges := [] @ edges g\<rparr>"
    unfolding cs foldr_append
    by (simp only: foldr.simps o_apply id_apply cascade_inverse [of "[]" 0, simplified] list.size)
        (simp add: cascade_inverse [of "[]" 0, simplified])
  moreover have "wf_graph g'"
    using d de by (simp add: g' wf_graph_def AList.distinct_delete distinct_map_filter)
  ultimately show ?thesis by simp
qed

lemma command_changes_make: "command_changes (make_command cs) = cs"
  by (simp add: make_command_def split: list.split)

lemma commit_failure: "commit r s = (Inl f, s') \<Longrightarrow> s' = s"
  by (auto simp: commit_def split: sum.splits prod.splits)

lemma commit_success:
  assumes "commit r s = (Inr c, s')"
  shows "\<exists>g' cs. r = Inr (g', cs) \<and> c = make_command cs \<and> scene_graph s' = g' \<and>
           applied (stack s') = c # applied (stack s)"
  using assms by (auto simp: commit_def push_def split: sum.splits prod.splits)

lemma handle_failure: "handle i s = (Inl f, s') \<Longrightarrow> s' = s"
  by (cases i) (auto dest: commit_failure split: option.splits if_splits)

lemma handle_success:
  assumes wf: "wf_graph (scene_graph s)" and h: "handle i s = (Inr c, s')"
  shows "applied (stack s') = c # applied (stack s) \<and>
         undo_command c (scene_graph s') = scene_graph s \<and> wf_graph (scene_graph s')"
proof -
  have step: "applied (stack s') = c # applied (stack s) \<and>
         undo_command c (scene_graph s') = scene_graph s \<and> wf_graph (scene_graph s')"
    if c: "commit r s = (Inr c, s')"
      and inv: "\<And>g' cs. r = Inr (g', cs) \<Longrightarrow> foldr invert_change cs g' = scene_graph s \<and> wf_graph g'"
    for r
  proof -
    from commit_success [OF c] obtain g' cs where r: "r = Inr (g', cs)"
      and mk: "c = make_command cs" and g: "scene_graph s' = g'"
      and ap: "applied (stack s') = c # applied (stack s)" by blast
    from inv [OF r] show ?thesis
      by (simp add: ap g mk undo_command_def command_changes_make)
  qed
  show ?thesis
  proof (cases i)
    case (CreateNode nid n)
    with h have "commit (addNode (scene_graph s) nid n) s = (Inr c, s')" by simp
    then show ?thesis by (rule step) (rule addNode_inverse [OF wf])
  next
    case (DeleteNode nid)
    with h have "commit (removeNode (scene_graph s) nid) s = (Inr c, s')" by simp
    then show ?thesis by (rule step) (rule removeNode_inverse [OF wf])
  next
    case (Connect eid a b)
    with h have "commit (addEdge (scene_graph s) eid \<lparr>edge_source = a, edge_destination = b\<rparr>) s
        = (Inr c, s')"
      by (auto split: option.splits if_splits)
    then show ?thesis by (rule step) (rule addEdge_inverse [OF wf])
  next
    case (Disconnect eid)
    with h have "commit (removeEdge (scene_graph s) eid) s = (Inr c, s')" by simp
    then show ?thesis by (rule step) (rule removeEdge_inverse [OF wf])
  next
    case (EditAttribute nid key v)
    with h have "commit (setAttribute (scene_graph s) nid key v) s = (Inr c, s')" by simp
    then show ?thesis by (rule step) (rule setAttribute_inverse [OF wf])
  qed
qed

lemma undo_step:
  "applied (stack s) = c # cs \<Longrightarrow>
   scene_graph (undo s) = undo_command c (scene_graph s) \<and> applied (stack (undo s)) = cs"
  by (simp add: undo_def)

lemma undo_funpow:
  "applied (stack s) = new @ old \<Longrightarrow>
   scene_graph ((undo ^^ length new) s) = fold undo_command new (scene_graph s) \<and>
   applied (stack ((undo ^^ length new) s)) = old"
proof (induction new arbitrary: s)
  case Nil
  then show ?case by simp
next
  case (Cons c new)
  then have a: "applied (stack s) = c # (new @ old)" by simp
  from undo_step [OF a] have g: "scene_graph (undo s) = undo_command c (scene_graph s)"
    and st: "applied (stack (undo s)) = new @ old" by simp_all
  from Cons.IH [OF st] show ?case
    by (simp add: funpow_swap1 g)
qed

lemma handle_all_snoc: "handle_all (is @ [i]) s = snd (handle i (handle_all is s))"
  by (simp add: handle_all_def)

lemma handle_all_pushes:
  assumes "wf_graph (scene_graph s)"
  shows "\<exists>new. applied (stack (handle_all is s)) = new @ applied (stack s) \<and>
           fold undo_command new (scene_graph (handle_all is s)) = scene_graph s \<and>
           wf_graph (scene_graph (handle_all is s))"
proof (induction "is" rule: rev_induct)
  case Nil
  show ?case using assms by (simp add: handle_all_def)
next
  case (snoc i "is")
  then obtain new where ap: "applied (stack (handle_all is s)) = new @ applied (stack s)"
    and un: "fold undo_command new (scene_graph (handle_all is s)) = scene_graph s"
    and wf: "wf_graph (scene_graph (handle_all is s))" by blast
  obtain r s' where hs: "handle i (handle_all is s) = (r, s')" by (cases "handle i (handle_all is s)")
  show ?case
  proof (cases r)
    case (Inl f)
    with hs have "s' = handle_all is s" by (auto dest: handle_failure)
    with ap un wf hs show ?thesis
      by (intro exI [of _ new]) (simp add: handle_all_snoc)
  next
    case (Inr c)
    with hs have "handle i (handle_all is s) = (Inr c, s')" by simp
    from handle_success [OF wf this] ap un hs show ?thesis
      by (intro exI [of _ "c # new"]) (simp add: handle_all_snoc)
  qed
qed

text \<open>C3. From every Graph Model whose identifiers are keys, for every sequence of intents
  handled one after the other, where \<open>N\<close> is the number of Commands the sequence pushed
  (one for each mutation that succeeded), \<open>N\<close> calls of \<^verbatim>\<open>undo()\<close> give back the Graph Model
  of before the sequence: the same nodes with the same attribute values and the same
  edges; the applied segment of the Command Stack is the one of before, too.\<close>

theorem undo_all_restores:
  assumes "wf_graph (scene_graph s)"
  shows "let s' = handle_all intents s;
             N = length (applied (stack s')) - length (applied (stack s))
         in scene_graph ((undo ^^ N) s') = scene_graph s \<and>
            applied (stack ((undo ^^ N) s')) = applied (stack s)"
proof -
  from handle_all_pushes [OF assms, of intents] obtain new
    where ap: "applied (stack (handle_all intents s)) = new @ applied (stack s)"
      and un: "fold undo_command new (scene_graph (handle_all intents s)) = scene_graph s"
    by blast
  have n: "length (applied (stack (handle_all intents s))) - length (applied (stack s)) = length new"
    by (simp add: ap)
  from undo_funpow [OF ap] un show ?thesis
    unfolding Let_def n by simp
qed

text \<open>C6. In every scene, a connect-intent between two Connections that both resolve and
  both have direction output returns \<^verbatim>\<open>IncompatibleDirection\<close> and the scene it was given:
  Graph Model, Command Stack and view models are unchanged.\<close>

theorem connect_outputs_rejected:
  assumes "lookup_connection (scene_graph s) a = Some ca"
    and "lookup_connection (scene_graph s) b = Some cb"
    and "conn_direction ca = Output" and "conn_direction cb = Output"
  shows "handle (Connect eid a b) s = (Inl IncompatibleDirection, s)"
  using assms by simp

text \<open>C7. In every scene whose Graph Model has identifiers as keys, deleting a Node that
  exists succeeds; the Edges left are exactly those that do not touch the Node, in their
  old order, the Node is gone, exactly one Command is pushed for the whole cascade, and one
  \<^verbatim>\<open>undo()\<close> gives back the Graph Model of before, the Node and every cascaded Edge.\<close>

theorem removeNode_cascade_one_unit:
  assumes wf: "wf_graph (scene_graph s)" and n: "map_of (nodes (scene_graph s)) nid = Some n"
  shows "case handle (DeleteNode nid) s of
           (Inl f, s') \<Rightarrow> False
         | (Inr c, s') \<Rightarrow>
             edges (scene_graph s') = filter (\<lambda>(eid, e). \<not> touches nid e) (edges (scene_graph s)) \<and>
             nodes (scene_graph s') = AList.delete nid (nodes (scene_graph s)) \<and>
             applied (stack s') = c # applied (stack s) \<and>
             scene_graph (undo s') = scene_graph s"
proof -
  obtain g' cs where r: "removeNode (scene_graph s) nid = Inr (g', cs)"
    and g': "g' = (scene_graph s)\<lparr>nodes := AList.delete nid (nodes (scene_graph s)),
                 edges := filter (\<lambda>(eid, e). \<not> touches nid e) (edges (scene_graph s))\<rparr>"
    using n by (simp add: removeNode_def)
  define s' where "s' = snd (handle (DeleteNode nid) s)"
  have h: "handle (DeleteNode nid) s = (Inr (make_command cs), s')"
    by (simp add: s'_def commit_def r)
  have sg: "scene_graph s' = g'"
    by (simp add: s'_def commit_def r)
  from handle_success [OF wf h]
  have ap: "applied (stack s') = make_command cs # applied (stack s)"
    and un: "undo_command (make_command cs) (scene_graph s') = scene_graph s" by simp_all
  from undo_step [OF ap] un have "scene_graph (undo s') = scene_graph s" by simp
  then show ?thesis
    unfolding h by (simp add: ap sg g')
qed

lemma ex_wf: "wf_graph (scene_graph ex_scene)"
  by (simp add: ex_scene_def ex_graph_def wf_graph_def)

theorem undo_all_restores_witness:
  "wf_graph (scene_graph ex_scene) \<and>
   (let s' = handle_all ex_intents ex_scene;
        N = length (applied (stack s')) - length (applied (stack ex_scene))
    in scene_graph ((undo ^^ N) s') = scene_graph ex_scene \<and>
       applied (stack ((undo ^^ N) s')) = applied (stack ex_scene))"
proof -
  have h: "wf_graph (scene_graph ex_scene)"
    by (simp add: ex_scene_def ex_graph_def wf_graph_def)
  from h undo_all_restores [OF h, of ex_intents] show ?thesis by simp
qed

lemma ex_pushes: "length (applied (stack (handle_all ex_intents ex_scene))) = 3"
  by (simp add: handle_all_def ex_intents_def ex_scene_def ex_graph_def commit_def removeNode_def
      addNode_def setAttribute_def push_def touches_def ex_nodeA_def ex_nodeB_def)

theorem connect_outputs_rejected_witness:
  "lookup_connection (scene_graph ex_scene) (1, ''out1'') = Some \<lparr>conn_name = ''out1'', conn_direction = Output\<rparr> \<and>
   lookup_connection (scene_graph ex_scene) (2, ''out1'') = Some \<lparr>conn_name = ''out1'', conn_direction = Output\<rparr> \<and>
   handle (Connect 11 (1, ''out1'') (2, ''out1'')) ex_scene = (Inl IncompatibleDirection, ex_scene)"
proof -
  have a: "lookup_connection (scene_graph ex_scene) (1, ''out1'') =
      Some \<lparr>conn_name = ''out1'', conn_direction = Output\<rparr>"
    by (simp add: lookup_connection_def ex_scene_def ex_graph_def ex_nodeA_def)
  have b: "lookup_connection (scene_graph ex_scene) (2, ''out1'') =
      Some \<lparr>conn_name = ''out1'', conn_direction = Output\<rparr>"
    by (simp add: lookup_connection_def ex_scene_def ex_graph_def ex_nodeB_def)
  from a b connect_outputs_rejected [OF a b, of 11] show ?thesis by simp
qed

theorem removeNode_cascade_one_unit_witness:
  "wf_graph (scene_graph ex_scene) \<and> map_of (nodes (scene_graph ex_scene)) 1 = Some ex_nodeA \<and>
   (case handle (DeleteNode 1) ex_scene of
      (Inl f, s') \<Rightarrow> False
    | (Inr c, s') \<Rightarrow>
        edges (scene_graph s') = filter (\<lambda>(eid, e). \<not> touches 1 e) (edges (scene_graph ex_scene)) \<and>
        nodes (scene_graph s') = AList.delete 1 (nodes (scene_graph ex_scene)) \<and>
        applied (stack s') = c # applied (stack ex_scene) \<and>
        scene_graph (undo s') = scene_graph ex_scene)"
proof -
  have h: "wf_graph (scene_graph ex_scene)"
    by (simp add: ex_scene_def ex_graph_def wf_graph_def)
  have n: "map_of (nodes (scene_graph ex_scene)) 1 = Some ex_nodeA"
    by (simp add: ex_scene_def ex_graph_def)
  from h n removeNode_cascade_one_unit [OF h n] show ?thesis by blast
qed

lemma ex_delete_A:
  "handle (DeleteNode 1) ex_scene =
     (Inr (SceneChangedCommand
             [EdgeRemoved 0 10 \<lparr>edge_source = (1, ''out1''), edge_destination = (2, ''in1'')\<rparr>,
              NodeRemoved 0 1 ex_nodeA]),
      \<lparr>scene_graph = \<lparr>nodes = [(2, ex_nodeB)], edges = []\<rparr>,
       stack = \<lparr>applied = [SceneChangedCommand
             [EdgeRemoved 0 10 \<lparr>edge_source = (1, ''out1''), edge_destination = (2, ''in1'')\<rparr>,
              NodeRemoved 0 1 ex_nodeA]], redoable = []\<rparr>,
       views = \<lparr>nodes_list = [2], edges_list = [], table_rows = [(2, ''B'')]\<rparr>\<rparr>)"
  by (simp add: ex_scene_def ex_graph_def commit_def removeNode_def touches_def key_index_def
      make_command_def push_def row_removed_node_def row_removed_edge_def)

end
